theory Spec2Isabelle
  imports Main "HOL-Library.Multiset" "HOL-Library.AList"
begin

section \<open>Card definitions\<close>

datatype suit = Hearts | Diamonds | Clubs | Spades

datatype rank = Seven | Eight | Nine | Ten | Jack | Queen | King | Ace

record card =
  suit :: suit
  rank :: rank

definition suits :: "suit list" where
  "suits = [Hearts, Diamonds, Clubs, Spades]"

definition ranks :: "rank list" where
  "ranks = [Seven, Eight, Nine, Ten, Jack, Queen, King, Ace]"

text \<open>The trump of a room is the value that the \<open>selectTrump\<close> message carried: the
  handler stores it unchecked. The server compares it with \<open>null\<close> and with the suits of
  cards (both with \<open>===\<close>) and sends it back to the clients, nothing else. So a trump value
  is \<open>null\<close> (\<open>None\<close>), the name of one of the four suits, or any other value
  (\<open>undefined\<close>, another string, a number, ...), which is not \<open>null\<close> and is the suit of
  no card.\<close>

datatype trumpValue = SuitName suit | Other

text \<open>What the comparison \<open>card.suit === trump\<close> sees of a trump value: the suit that it
  names, if it names one.\<close>

fun trumpSuit :: "trumpValue option \<Rightarrow> suit option" where
  "trumpSuit (Some (SuitName s)) = Some s"
| "trumpSuit _ = None"

text \<open>Seats are array indices; \<open>findIndex\<close> and the initial \<open>trumpSelector\<close> use -1, so
  indices are integers. Reading a JavaScript array outside its bounds yields \<open>undefined\<close>.\<close>

definition nth_js :: "'a list \<Rightarrow> int \<Rightarrow> 'a option" where
  "nth_js xs i = (if 0 \<le> i \<and> nat i < length xs then Some (xs ! nat i) else None)"

text \<open>One entry of the current trick: \<open>{ playerIndex, playerName, card }\<close>.\<close>

record play =
  playerIndex :: int
  playerName :: string
  cardOf :: card

section \<open>Card rule engine\<close>

text \<open>\<open>createDeck\<close>: the outer loop runs over the suits, the inner one over the ranks.\<close>

definition createDeck :: "card list" where
  "createDeck = concat (map (\<lambda>s. map (\<lambda>r. \<lparr>suit = s, rank = r\<rparr>) ranks) suits)"

fun rankValues :: "rank \<Rightarrow> nat" where
  "rankValues Seven = 1"
| "rankValues Eight = 2"
| "rankValues Nine = 3"
| "rankValues Ten = 4"
| "rankValues Jack = 5"
| "rankValues Queen = 6"
| "rankValues King = 7"
| "rankValues Ace = 8"

text \<open>\<open>getCardValue\<close>: the trump is compared with the suit of the card, so the argument
  is the suit that \<open>room.trump\<close> names, and \<open>None\<close> when it names no suit (it is \<open>null\<close>
  before a trump is chosen).\<close>

definition getCardValue :: "card \<Rightarrow> suit option \<Rightarrow> nat" where
  "getCardValue c trump =
     (let v = rankValues (rank c) in if Some (suit c) = trump then v + 10 else v)"

text \<open>The predicate \<open>c && c.suit === leadSuit\<close> on a nullable hand slot. \<open>isValidPlay\<close> and
  \<open>getPlayableCards\<close> only log their trump argument, whatever value it is.\<close>

definition isLeadSuit :: "suit \<Rightarrow> card option \<Rightarrow> bool" where
  "isLeadSuit leadSuit c = (case c of None \<Rightarrow> False | Some c' \<Rightarrow> suit c' = leadSuit)"

definition isValidPlay :: "card \<Rightarrow> card option list \<Rightarrow> play list \<Rightarrow> 't \<Rightarrow> bool" where
  "isValidPlay c hand currentTrick trump =
     (case currentTrick of
        [] \<Rightarrow> True
      | t # _ \<Rightarrow>
          (let leadSuit = suit (cardOf t);
               cardsOfLeadSuit = filter (isLeadSuit leadSuit) hand
           in if length cardsOfLeadSuit > 0 then suit c = leadSuit else True))"

text \<open>\<open>hand.forEach((card, index) => { if (p(card)) out.push(index) })\<close>, started at
  index \<open>i\<close>.\<close>

fun pushIndices :: "('a \<Rightarrow> bool) \<Rightarrow> nat \<Rightarrow> 'a list \<Rightarrow> nat list" where
  "pushIndices p i [] = []"
| "pushIndices p i (x # xs) =
     (if p x then i # pushIndices p (Suc i) xs else pushIndices p (Suc i) xs)"

definition getPlayableCards :: "card option list \<Rightarrow> play list \<Rightarrow> 't \<Rightarrow> nat list" where
  "getPlayableCards hand currentTrick trump =
     (case currentTrick of
        [] \<Rightarrow> pushIndices (\<lambda>c. c \<noteq> None) 0 hand
      | t # _ \<Rightarrow>
          (let leadSuit = suit (cardOf t);
               leadSuitCardIndices = pushIndices (isLeadSuit leadSuit) 0 hand
           in if length leadSuitCardIndices > 0
              then leadSuitCardIndices
              else pushIndices (\<lambda>c. c \<noteq> None) 0 hand))"

text \<open>\<open>Array.prototype.reduce\<close> without an initial value: the first element starts the
  accumulator, and an empty array raises a TypeError (\<open>None\<close>).\<close>

fun reduce1 :: "('a \<Rightarrow> 'a \<Rightarrow> 'a) \<Rightarrow> 'a list \<Rightarrow> 'a option" where
  "reduce1 f [] = None"
| "reduce1 f (x # xs) = Some (foldl f x xs)"

definition higher :: "suit option \<Rightarrow> play \<Rightarrow> play \<Rightarrow> play" where
  "higher trump highest current =
     (if getCardValue (cardOf current) trump > getCardValue (cardOf highest) trump
      then current else highest)"

text \<open>\<open>getTrickWinner\<close>: \<open>trick[0].card\<close> on an empty trick raises a TypeError.\<close>

definition getTrickWinner :: "play list \<Rightarrow> suit option \<Rightarrow> play option" where
  "getTrickWinner trick trump =
     (case trick of
        [] \<Rightarrow> None
      | t0 # _ \<Rightarrow>
          (let leadSuit = suit (cardOf t0);
               trumpCards = filter (\<lambda>t. Some (suit (cardOf t)) = trump) trick
           in if length trumpCards > 0
              then reduce1 (higher trump) trumpCards
              else reduce1 (higher trump) (filter (\<lambda>t. suit (cardOf t) = leadSuit) trick)))"


text \<open>\<open>shuffleDeck\<close>: Fisher-Yates from the last index down to 1. The draw
  \<open>Math.floor(Math.random() * (i + 1))\<close> is an integer between 0 and \<open>i\<close>; the random
  source is a parameter \<open>rnd\<close>, whose value for the loop index \<open>i\<close> is reduced into that
  range.\<close>

fun shuffleLoop :: "(nat \<Rightarrow> nat) \<Rightarrow> nat \<Rightarrow> 'a list \<Rightarrow> 'a list" where
  "shuffleLoop rnd 0 shuffled = shuffled"
| "shuffleLoop rnd (Suc k) shuffled =
     (let i = Suc k; j = rnd i mod (i + 1)
      in shuffleLoop rnd k (shuffled[i := shuffled ! j, j := shuffled ! i]))"

definition shuffleDeck :: "(nat \<Rightarrow> nat) \<Rightarrow> 'a list \<Rightarrow> 'a list" where
  "shuffleDeck rnd deck = shuffleLoop rnd (length deck - 1) deck"

section \<open>Rooms and seats\<close>

datatype team = TeamA | TeamB

datatype phase = Waiting | TrumpSelection | Playing | Completed | Paused

text \<open>A seated player. \<open>id_p\<close> is the field \<open>id\<close> (the socket id), timestamps are
  \<open>Date.now()\<close> values.\<close>

record player =
  id_p :: string
  name :: string
  team :: team
  hand :: "card option list"
  connected :: bool
  position :: int
  lastSeen :: int

record scores =
  teamA :: nat
  teamB :: nat

record room =
  id_r :: string
  players :: "player option list"
  gameState :: phase
  deck :: "card list"
  trump :: "trumpValue option"
  trumpSelector :: int
  currentPlayerIndex :: int
  currentTrick :: "play list"
  tricksWon :: "nat list"
  scores :: scores
  round :: nat
  currentRoundIndex :: nat
  lastTrickWinner :: int
  createdAt :: int
  lastActivity :: int

definition MAX_ROOMS :: nat where
  "MAX_ROOMS = 100"

definition PLAYER_TIMEOUT :: int where
  "PLAYER_TIMEOUT = 5 * 60 * 1000"

fun TEAM_POSITIONS :: "team \<Rightarrow> int list" where
  "TEAM_POSITIONS TeamA = [0, 2]"
| "TEAM_POSITIONS TeamB = [1, 3]"

definition getTeamForPosition :: "int \<Rightarrow> team" where
  "getTeamForPosition pos = (if pos \<in> set (TEAM_POSITIONS TeamA) then TeamA else TeamB)"

text \<open>\<open>room.players[i]\<close> read as a truthy value: \<open>null\<close> and \<open>undefined\<close> are both
  "no player".\<close>

definition seat :: "player option list \<Rightarrow> int \<Rightarrow> player option" where
  "seat ps i = (case nth_js ps i of Some (Some p) \<Rightarrow> Some p | _ \<Rightarrow> None)"

text \<open>\<open>arr[i] = v\<close> for \<open>i \<ge> 0\<close>: past the end the array grows, the skipped slots
  are holes.\<close>

definition set_js :: "'a option list \<Rightarrow> int \<Rightarrow> 'a option \<Rightarrow> 'a option list" where
  "set_js xs i v =
     (if nat i < length xs then xs[nat i := v]
      else xs @ replicate (nat i - length xs) None @ [v])"

fun findIndexFrom :: "('a \<Rightarrow> bool) \<Rightarrow> int \<Rightarrow> 'a list \<Rightarrow> int" where
  "findIndexFrom p i [] = -1"
| "findIndexFrom p i (x # xs) = (if p x then i else findIndexFrom p (i + 1) xs)"

definition findIndex :: "('a \<Rightarrow> bool) \<Rightarrow> 'a list \<Rightarrow> int" where
  "findIndex p xs = findIndexFrom p 0 xs"

text \<open>\<open>xs.map((x, index) => f(index, x))\<close>.\<close>

fun mapiFrom :: "(nat \<Rightarrow> 'a \<Rightarrow> 'b) \<Rightarrow> nat \<Rightarrow> 'a list \<Rightarrow> 'b list" where
  "mapiFrom f i [] = []"
| "mapiFrom f i (x # xs) = f i x # mapiFrom f (Suc i) xs"

definition mapi :: "(nat \<Rightarrow> 'a \<Rightarrow> 'b) \<Rightarrow> 'a list \<Rightarrow> 'b list" where
  "mapi f xs = mapiFrom f 0 xs"

text \<open>The remainder \<open>a % b\<close> of JavaScript takes the sign of the dividend.\<close>

definition js_rem :: "int \<Rightarrow> int \<Rightarrow> int" where
  "js_rem a b = (if 0 \<le> a then a mod \<bar>b\<bar> else - ((- a) mod \<bar>b\<bar>))"

text \<open>The seat predicates of the source: \<open>p && p.connected\<close>, \<open>p && p.id === id\<close>.\<close>

definition isConnected :: "player option \<Rightarrow> bool" where
  "isConnected p = (case p of None \<Rightarrow> False | Some pl \<Rightarrow> connected pl)"

definition hasId :: "string \<Rightarrow> player option \<Rightarrow> bool" where
  "hasId sid p = (case p of None \<Rightarrow> False | Some pl \<Rightarrow> id_p pl = sid)"

definition connectedCount :: "room \<Rightarrow> nat" where
  "connectedCount room = length (filter isConnected (players room))"

text \<open>A seat is available when \<open>!room.players[pos] || !room.players[pos].id\<close>; the empty
  string is the only falsy socket id.\<close>

definition seatFree :: "room \<Rightarrow> int \<Rightarrow> bool" where
  "seatFree room pos = (case seat (players room) pos of None \<Rightarrow> True | Some p \<Rightarrow> id_p p = [])"

definition findPositionForTeam :: "room \<Rightarrow> team \<Rightarrow> int" where
  "findPositionForTeam room preferredTeam =
     (let availablePositions = filter (seatFree room) (TEAM_POSITIONS preferredTeam)
      in if length availablePositions > 0 then hd availablePositions
         else
           (let otherTeam = (if preferredTeam = TeamA then TeamB else TeamA);
                otherAvailablePositions = filter (seatFree room) (TEAM_POSITIONS otherTeam)
            in if length otherAvailablePositions > 0 then hd otherAvailablePositions else -1))"

definition initializeRoom :: "string \<Rightarrow> int \<Rightarrow> room" where
  "initializeRoom roomId now =
     \<lparr>id_r = roomId, players = [None, None, None, None], gameState = Waiting, deck = [],
      trump = None, trumpSelector = -1, currentPlayerIndex = 0, currentTrick = [],
      tricksWon = [0, 0, 0, 0], scores = \<lparr>teamA = 0, teamB = 0\<rparr>, round = 1,
      currentRoundIndex = 0, lastTrickWinner = -1, createdAt = now, lastActivity = now\<rparr>"


section \<open>Dealing\<close>

text \<open>\<open>dealCardsForTrumpSelection\<close>: \<open>deck.splice(0, 4)\<close> removes the first four cards
  from the array that \<open>room.deck\<close> refers to. Nothing is dealt when the seat at
  \<open>currentPlayerIndex\<close> is empty.\<close>

definition dealCardsForTrumpSelection :: "(nat \<Rightarrow> nat) \<Rightarrow> room \<Rightarrow> room" where
  "dealCardsForTrumpSelection rnd room =
     (let deck0 = shuffleDeck rnd createDeck
      in case seat (players room) (currentPlayerIndex room) of
           None \<Rightarrow> room\<lparr>deck := deck0\<rparr>
         | Some trumpSelector0 \<Rightarrow>
             room\<lparr>deck := drop 4 deck0,
                  players :=
                    mapi (\<lambda>index p.
                            case p of
                              None \<Rightarrow> None
                            | Some pl \<Rightarrow>
                                if int index \<noteq> currentPlayerIndex room
                                then Some (pl\<lparr>hand := []\<rparr>)
                                else Some (pl\<lparr>hand := map Some (take 4 deck0)\<rparr>))
                         (players room)\<rparr>)"

text \<open>The loop of \<open>dealRemainingCards\<close> over the seats in index order, threading the
  shrinking deck: the seat at \<open>currentPlayerIndex\<close> gets four more cards pushed onto its
  hand, every other occupied seat has its hand replaced by the next eight cards.\<close>

fun dealRemainingFrom ::
  "int \<Rightarrow> nat \<Rightarrow> player option list \<Rightarrow> card list \<Rightarrow> player option list \<times> card list" where
  "dealRemainingFrom cur index [] d = ([], d)"
| "dealRemainingFrom cur index (None # ps) d =
     (let (ps', d') = dealRemainingFrom cur (Suc index) ps d in (None # ps', d'))"
| "dealRemainingFrom cur index (Some pl # ps) d =
     (if int index = cur
      then (let newCards = take 4 d;
                (ps', d') = dealRemainingFrom cur (Suc index) ps (drop 4 d)
            in (Some (pl\<lparr>hand := hand pl @ map Some newCards\<rparr>) # ps', d'))
      else (let (ps', d') = dealRemainingFrom cur (Suc index) ps (drop 8 d)
            in (Some (pl\<lparr>hand := map Some (take 8 d)\<rparr>) # ps', d')))"

definition dealRemainingCards :: "room \<Rightarrow> room" where
  "dealRemainingCards room =
     (let (ps', d') = dealRemainingFrom (currentPlayerIndex room) 0 (players room) (deck room)
      in room\<lparr>players := ps', deck := d'\<rparr>)"

section \<open>Scoring\<close>

record roundResult =
  winningTeam :: "team option"
  pointsAwarded :: nat
  teamATricks :: nat
  teamBTricks :: nat
  trumpTeam :: team
  defendingTeam :: team

record roundStatus =
  roundComplete :: bool
  gameComplete :: bool
  roundResult :: "roundResult option"

text \<open>\<open>checkRoundComplete\<close> returns the mutated room and the status object. The trick
  counters are read at the indices 0 to 3; a missing counter would make the sums \<open>NaN\<close>,
  which is outside the model (\<open>None\<close>).\<close>

definition checkRoundComplete :: "room \<Rightarrow> (room \<times> roundStatus) option" where
  "checkRoundComplete room =
     (let tricksExpected = 8;
          tricksPlayed = foldl (+) 0 (tricksWon room)
      in if tricksPlayed \<ge> tricksExpected then
           (case (nth_js (tricksWon room) 0, nth_js (tricksWon room) 1,
                  nth_js (tricksWon room) 2, nth_js (tricksWon room) 3) of
              (Some w0, Some w1, Some w2, Some w3) \<Rightarrow>
                (let teamATricks0 = w0 + w2;
                     teamBTricks0 = w1 + w3;
                     trumpTeam0 = getTeamForPosition (trumpSelector room);
                     defendingTeam0 = (if trumpTeam0 = TeamA then TeamB else TeamA);
                     (winningTeam0, pointsAwarded0, scores0) =
                       (if teamATricks0 > teamBTricks0 then
                          (let pts = (if defendingTeam0 = TeamA \<and> teamATricks0 = tricksExpected
                                      then 2 else 1)
                           in (Some TeamA, pts, (scores room)\<lparr>teamA := teamA (scores room) + pts\<rparr>))
                        else if teamBTricks0 > teamATricks0 then
                          (let pts = (if defendingTeam0 = TeamB \<and> teamBTricks0 = tricksExpected
                                      then 2 else 1)
                           in (Some TeamB, pts, (scores room)\<lparr>teamB := teamB (scores room) + pts\<rparr>))
                        else (None, 0, scores room));
                     result = \<lparr>winningTeam = winningTeam0, pointsAwarded = pointsAwarded0,
                               teamATricks = teamATricks0, teamBTricks = teamBTricks0,
                               trumpTeam = trumpTeam0, defendingTeam = defendingTeam0\<rparr>;
                     targetScore = 10
                 in if teamA scores0 \<ge> targetScore \<or> teamB scores0 \<ge> targetScore then
                      Some (room\<lparr>scores := scores0, gameState := Completed\<rparr>,
                            \<lparr>roundComplete = True, gameComplete = True,
                             roundResult = Some result\<rparr>)
                    else
                      (let next = js_rem (currentPlayerIndex room + 1) 4
                       in Some (room\<lparr>scores := scores0, tricksWon := [0, 0, 0, 0],
                                     currentTrick := [], trump := None,
                                     gameState := TrumpSelection, currentPlayerIndex := next,
                                     trumpSelector := next\<rparr>,
                                \<lparr>roundComplete = True, gameComplete = False,
                                 roundResult = Some result\<rparr>)))
            | _ \<Rightarrow> None)
         else Some (room, \<lparr>roundComplete = False, gameComplete = False, roundResult = None\<rparr>))"


section \<open>Notifications\<close>

text \<open>The rejections a handler reports with \<open>socket.emit('error', { message })\<close> or that
  \<open>addPlayerToRoom\<close> returns as \<open>{ success: false, message }\<close>, one constructor for each
  message text.\<close>

datatype error =
    ServerFull
  | AlreadyConnected
  | RoomFull
  | NameTaken
  | CannotSelectTrump
  | NotYourTurnTrump
  | NotPlaying
  | PlayerNotFound
  | NotYourTurn
  | CardNotFound
  | InvalidCard
  | MustFollowSuit suit

record playerInfo =
  name_i :: string
  team_i :: team
  position_i :: nat
  connected_i :: bool

text \<open>The object built by \<open>getFullGameStateForPlayer\<close>; its fields carry the suffix
  \<open>_s\<close> where the room has a field of the same name.\<close>

record snapshot =
  gameState_s :: phase
  trump_s :: "trumpValue option"
  currentPlayerIndex_s :: int
  position_s :: int
  hand_s :: "card option list"
  isYourTurn :: bool
  playableCards :: "nat list"
  currentTrick_s :: "play list"
  scores_s :: scores
  tricksWon_s :: "nat list"
  playerNames :: "string option list"
  players_s :: "playerInfo option list"

text \<open>The \<open>winner\<close> of the \<open>gameOver\<close> notification: \<open>'Team A'\<close>, \<open>'Team B'\<close> or
  \<open>'Tie'\<close>.\<close>

datatype finalWinner = TeamAWins | TeamBWins | Tie

text \<open>The notifications whose payload is computed from the room; the others only repeat
  names and messages.\<close>

datatype notification =
    ErrorMsg error
  | GameInProgress snapshot
  | YourTurn "nat list"
  | RoundCompleteMsg "roundResult option" scores
  | GameOver finalWinner scores "roundResult option"

definition getFullGameStateForPlayer :: "room \<Rightarrow> int \<Rightarrow> snapshot option" where
  "getFullGameStateForPlayer room playerPosition =
     (case seat (players room) playerPosition of
        None \<Rightarrow> None
      | Some player0 \<Rightarrow>
          Some \<lparr>gameState_s = gameState room,
                trump_s = trump room,
                currentPlayerIndex_s = currentPlayerIndex room,
                position_s = playerPosition,
                hand_s = hand player0,
                isYourTurn = (currentPlayerIndex room = playerPosition \<and> gameState room = Playing),
                playableCards =
                  (if currentPlayerIndex room = playerPosition \<and> gameState room = Playing
                   then getPlayableCards (hand player0) (currentTrick room) (trump room)
                   else []),
                currentTrick_s = currentTrick room,
                scores_s = scores room,
                tricksWon_s = tricksWon room,
                playerNames = map (map_option name) (players room),
                players_s =
                  mapi (\<lambda>index p.
                          map_option (\<lambda>pl. \<lparr>name_i = name pl, team_i = team pl,
                                              position_i = index, connected_i = connected pl\<rparr>) p)
                       (players room)\<rparr>)"

section \<open>Joining and reconnecting\<close>

text \<open>The registry: the two global maps \<open>rooms\<close> and \<open>playerSockets\<close>, as association
  lists in insertion order. \<open>Map.set\<close> is \<open>AList.update\<close>, \<open>Map.delete\<close> is
  \<open>AList.delete\<close>, \<open>Map.get\<close> is \<open>map_of\<close>; the keys stay distinct, so \<open>Map.size\<close> is
  the length.\<close>

record registry =
  rooms :: "(string \<times> room) list"
  playerSockets :: "(string \<times> string) list"

record playerData =
  id_d :: string
  name_d :: string

datatype joinResult = JoinFailure error | JoinSuccess int bool

text \<open>In-place update of the player object at seat \<open>i\<close>; the handlers only do this at an
  index that \<open>findIndex\<close> returned, where a player is seated.\<close>

definition updateSeat :: "player option list \<Rightarrow> int \<Rightarrow> (player \<Rightarrow> player) \<Rightarrow> player option list" where
  "updateSeat ps i f = (case seat ps i of None \<Rightarrow> ps | Some pl \<Rightarrow> ps[nat i := Some (f pl)])"

text \<open>The ordinary join of \<open>addPlayerToRoom\<close>, from \<open>findPositionForTeam\<close> on.\<close>

definition normalJoin :: "room \<Rightarrow> playerData \<Rightarrow> team \<Rightarrow> int \<Rightarrow> room \<times> joinResult" where
  "normalJoin room playerData preferredTeam now =
     (let pos = findPositionForTeam room preferredTeam
      in if pos = -1 then (room, JoinFailure RoomFull)
         else
           (let existingPlayers = filter isConnected (players room)
            in if list_ex (\<lambda>p. case p of None \<Rightarrow> False | Some pl \<Rightarrow> name pl = name_d playerData)
                    existingPlayers
               then (room, JoinFailure NameTaken)
               else (room\<lparr>players :=
                            set_js (players room) pos
                              (Some \<lparr>id_p = id_d playerData, name = name_d playerData,
                                     team = getTeamForPosition pos, hand = [], connected = True,
                                     position = pos, lastSeen = now\<rparr>)\<rparr>,
                     JoinSuccess pos False)))"

text \<open>The two searches of the reconnection branch: \<open>p && p.name === name && !p.connected\<close>
  and \<open>p && p.name === name && p.connected\<close>.\<close>

definition disconnectedNamed :: "string \<Rightarrow> player option \<Rightarrow> bool" where
  "disconnectedNamed nm p = (case p of None \<Rightarrow> False | Some pl \<Rightarrow> name pl = nm \<and> \<not> connected pl)"

definition connectedNamed :: "string \<Rightarrow> player option \<Rightarrow> bool" where
  "connectedNamed nm p = (case p of None \<Rightarrow> False | Some pl \<Rightarrow> name pl = nm \<and> connected pl)"

text \<open>The body of \<open>addPlayerToRoom\<close> once the room object is at hand.\<close>

definition seatPlayer :: "room \<Rightarrow> playerData \<Rightarrow> team \<Rightarrow> bool \<Rightarrow> int \<Rightarrow> room \<times> joinResult" where
  "seatPlayer room0 playerData preferredTeam isReconnect now =
     (let room = room0\<lparr>lastActivity := now\<rparr>
      in if isReconnect then
           (let existingPlayerIndex = findIndex (disconnectedNamed (name_d playerData)) (players room)
            in if existingPlayerIndex \<noteq> -1 then
                 (room\<lparr>players :=
                          updateSeat (players room) existingPlayerIndex
                            (\<lambda>pl. pl\<lparr>id_p := id_d playerData, connected := True, lastSeen := now\<rparr>)\<rparr>,
                  JoinSuccess existingPlayerIndex True)
               else
                 (let connectedPlayerIndex =
                        findIndex (connectedNamed (name_d playerData)) (players room)
                  in if connectedPlayerIndex \<noteq> -1 then (room, JoinFailure AlreadyConnected)
                     else normalJoin room playerData preferredTeam now))
         else normalJoin room playerData preferredTeam now)"

definition addPlayerToRoom ::
  "registry \<Rightarrow> string \<Rightarrow> playerData \<Rightarrow> team \<Rightarrow> bool \<Rightarrow> int \<Rightarrow> registry \<times> joinResult" where
  "addPlayerToRoom reg roomId playerData preferredTeam isReconnect now =
     (if map_of (rooms reg) roomId = None \<and> length (rooms reg) \<ge> MAX_ROOMS
      then (reg, JoinFailure ServerFull)
      else
        (let room0 = (case map_of (rooms reg) roomId of
                        None \<Rightarrow> initializeRoom roomId now
                      | Some r \<Rightarrow> r);
             (room1, result) = seatPlayer room0 playerData preferredTeam isReconnect now;
             reg1 = reg\<lparr>rooms := AList.update roomId room1 (rooms reg)\<rparr>
         in case result of
              JoinFailure e \<Rightarrow> (reg1, result)
            | JoinSuccess pos rc \<Rightarrow>
                (reg1\<lparr>playerSockets :=
                        AList.update (id_d playerData) roomId (playerSockets reg1)\<rparr>,
                 result)))"


section \<open>Room cleanup\<close>

definition cleanupRoom :: "registry \<Rightarrow> string \<Rightarrow> registry" where
  "cleanupRoom reg roomId =
     (case map_of (rooms reg) roomId of
        None \<Rightarrow> reg
      | Some room \<Rightarrow>
          reg\<lparr>playerSockets :=
                 foldl (\<lambda>socks p. case p of
                                     None \<Rightarrow> socks
                                   | Some pl \<Rightarrow> if connected pl then AList.delete (id_p pl) socks
                                                else socks)
                       (playerSockets reg) (players room),
               rooms := AList.delete roomId (rooms reg)\<rparr>)"

text \<open>\<open>checkRoomHealth\<close>: an empty room that has been inactive for two minutes is closed;
  otherwise the seats disconnected for longer than \<open>PLAYER_TIMEOUT\<close> are reset to
  \<open>null\<close>.\<close>

definition inactive :: "int \<Rightarrow> player option \<Rightarrow> bool" where
  "inactive now p =
     (case p of None \<Rightarrow> False | Some pl \<Rightarrow> \<not> connected pl \<and> now - lastSeen pl > PLAYER_TIMEOUT)"

definition evictInactive :: "room \<Rightarrow> int \<Rightarrow> room" where
  "evictInactive room now =
     (let hasChanges = list_ex (inactive now) (players room);
          room1 = room\<lparr>players := map (\<lambda>p. if inactive now p then None else p) (players room)\<rparr>
      in if hasChanges then room1\<lparr>lastActivity := now\<rparr> else room1)"

definition checkRoomHealth :: "registry \<Rightarrow> string \<Rightarrow> int \<Rightarrow> registry \<times> bool" where
  "checkRoomHealth reg roomId now =
     (case map_of (rooms reg) roomId of
        None \<Rightarrow> (reg, False)
      | Some room \<Rightarrow>
          if connectedCount room = 0 \<and> now - lastActivity room > 2 * 60 * 1000
          then (cleanupRoom reg roomId, False)
          else (reg\<lparr>rooms := AList.update roomId (evictInactive room now) (rooms reg)\<rparr>, True))"

section \<open>Event handlers\<close>

text \<open>Every handler takes the registry and returns the registry after the handler has run,
  with the notifications it sent. \<open>now\<close> is the value of \<open>Date.now()\<close> during the handler,
  \<open>rnd\<close> the random source of a shuffle it may perform.\<close>

definition startGameInRoom :: "room \<Rightarrow> int \<Rightarrow> (nat \<Rightarrow> nat) \<Rightarrow> room \<times> bool" where
  "startGameInRoom room now rnd =
     (if length (filter (\<lambda>p. p \<noteq> None) (players room)) \<noteq> 4 then (room, False)
      else
        (let room1 = room\<lparr>gameState := TrumpSelection, currentRoundIndex := 0,
                          currentPlayerIndex := 0, trumpSelector := 0,
                          scores := \<lparr>teamA = 0, teamB = 0\<rparr>, tricksWon := [0, 0, 0, 0],
                          lastActivity := now\<rparr>
         in (dealCardsForTrumpSelection rnd room1, True)))"

definition startGame :: "registry \<Rightarrow> string \<Rightarrow> int \<Rightarrow> (nat \<Rightarrow> nat) \<Rightarrow> registry \<times> bool" where
  "startGame reg roomId now rnd =
     (case map_of (rooms reg) roomId of
        None \<Rightarrow> (reg, False)
      | Some room \<Rightarrow>
          (let (room1, started) = startGameInRoom room now rnd
           in (reg\<lparr>rooms := AList.update roomId room1 (rooms reg)\<rparr>, started)))"

text \<open>The resume step of the reconnection branch of \<open>joinRoom\<close>, for the player who
  reconnected at seat \<open>pos\<close>.\<close>

definition resumeGame :: "(nat \<Rightarrow> nat) \<Rightarrow> room \<Rightarrow> int \<Rightarrow> room \<times> notification list" where
  "resumeGame rnd room pos =
     (if gameState room = Paused \<and> connectedCount room \<ge> 4 then
        (if trump room = None then
           (let room1 = room\<lparr>gameState := TrumpSelection\<rparr>
            in case seat (players room1) (currentPlayerIndex room1) of
                 None \<Rightarrow> (room1, [])
               | Some trumpSelector0 \<Rightarrow>
                   if connected trumpSelector0 \<and> length (hand trumpSelector0) = 0
                   then (dealCardsForTrumpSelection rnd room1, [])
                   else (room1, []))
         else
           (let room1 = room\<lparr>gameState := Playing\<rparr>
            in if currentPlayerIndex room1 = pos then
                 (case seat (players room1) pos of
                    None \<Rightarrow> (room1, [])
                  | Some pl \<Rightarrow>
                      (room1, [YourTurn (getPlayableCards (hand pl) (currentTrick room1) (trump room1))]))
               else (room1, [])))
      else (room, []))"

definition joinRoom ::
  "registry \<Rightarrow> string \<Rightarrow> string \<Rightarrow> string \<Rightarrow> team \<Rightarrow> bool \<Rightarrow> int \<Rightarrow> (nat \<Rightarrow> nat) \<Rightarrow>
     registry \<times> notification list" where
  "joinRoom reg sid roomId nm tm isReconnect now rnd =
     (let (reg1, result) = addPlayerToRoom reg roomId \<lparr>id_d = sid, name_d = nm\<rparr> tm isReconnect now
      in case result of
           JoinFailure e \<Rightarrow> (reg1, [ErrorMsg e])
         | JoinSuccess pos isReconnection \<Rightarrow>
             (case map_of (rooms reg1) roomId of
                None \<Rightarrow> (reg1, [])
              | Some room \<Rightarrow>
                  if isReconnection then
                    (let sent = (case getFullGameStateForPlayer room pos of
                                   None \<Rightarrow> []
                                 | Some gs \<Rightarrow> [GameInProgress gs]);
                         (room1, turn) = resumeGame rnd room pos
                     in (reg1\<lparr>rooms := AList.update roomId room1 (rooms reg1)\<rparr>, sent @ turn))
                  else if connectedCount room = 4 \<and> gameState room = Waiting
                  then (fst (startGame reg1 roomId now rnd), [])
                  else (reg1, [])))"

text \<open>\<open>selectTrump\<close>: the payload \<open>trump\<close> is stored as it comes, \<open>null\<close> included. The
  handler logs the value in a template string before it stores it; a value whose conversion
  to a string throws stops the handler there, with the room untouched, so such a message is
  no event.\<close>

definition selectTrumpInRoom ::
  "room \<Rightarrow> string \<Rightarrow> trumpValue option \<Rightarrow> int \<Rightarrow> room \<times> notification list" where
  "selectTrumpInRoom room sid trumpChoice now =
     (if gameState room \<noteq> TrumpSelection then (room, [ErrorMsg CannotSelectTrump])
      else
        (let playerIndex0 = findIndex (hasId sid) (players room)
         in if playerIndex0 \<noteq> currentPlayerIndex room then (room, [ErrorMsg NotYourTurnTrump])
            else
              (let room1 = dealRemainingCards
                             (room\<lparr>trump := trumpChoice, trumpSelector := playerIndex0,
                                   gameState := Playing, lastActivity := now\<rparr>)
               in case seat (players room1) (currentPlayerIndex room1) of
                    None \<Rightarrow> (room1, [])
                  | Some currentPlayer \<Rightarrow>
                      (room1, [YourTurn (getPlayableCards (hand currentPlayer)
                                           (currentTrick room1) (trump room1))]))))"

definition selectTrump ::
  "registry \<Rightarrow> string \<Rightarrow> string \<Rightarrow> trumpValue option \<Rightarrow> int \<Rightarrow> registry \<times> notification list" where
  "selectTrump reg sid roomId trumpChoice now =
     (case map_of (rooms reg) roomId of
        None \<Rightarrow> (reg, [ErrorMsg CannotSelectTrump])
      | Some room \<Rightarrow>
          (let (room1, sent) = selectTrumpInRoom room sid trumpChoice now
           in (reg\<lparr>rooms := AList.update roomId room1 (rooms reg)\<rparr>, sent)))"

text \<open>The \<open>winner\<close> field of \<open>gameOver\<close>.\<close>

definition finalWinnerOf :: "scores \<Rightarrow> finalWinner" where
  "finalWinnerOf sc =
     (if teamA sc > teamB sc then TeamAWins
      else if teamB sc > teamA sc then TeamBWins else Tie)"

text \<open>The \<open>playCard\<close> handler on the room object, in three parts. First the accepted card is
  pushed onto the current trick and its slot in the hand is set to \<open>null\<close>.\<close>

definition placeCard :: "room \<Rightarrow> int \<Rightarrow> player \<Rightarrow> card \<Rightarrow> nat \<Rightarrow> int \<Rightarrow> room" where
  "placeCard room playerIndex0 player0 c cardIndex now =
     room\<lparr>lastActivity := now,
          currentTrick :=
            currentTrick room @
              [\<lparr>playerIndex = playerIndex0, playerName = name player0, cardOf = c\<rparr>],
          players :=
            updateSeat (players room) playerIndex0 (\<lambda>pl. pl\<lparr>hand := (hand pl)[cardIndex := None]\<rparr>)\<rparr>"

text \<open>Then, when the trick has four cards: the winner's counter is incremented, the trick is
  cleared, the winner becomes the current player, and \<open>checkRoundComplete\<close> decides between
  \<open>gameOver\<close>, \<open>roundComplete\<close> and the next trick. The result is \<open>None\<close> where the JavaScript
  would raise or compute with \<open>undefined\<close>: no winner of the trick, or no trick counter at the
  winner's index.\<close>

definition resolveTrick :: "room \<Rightarrow> (room \<times> notification list) option" where
  "resolveTrick room1 =
     (case getTrickWinner (currentTrick room1) (trumpSuit (trump room1)) of
        None \<Rightarrow> None
      | Some winner \<Rightarrow>
          (let winnerIndex = playerIndex winner
           in case nth_js (tricksWon room1) winnerIndex of
                None \<Rightarrow> None
              | Some n \<Rightarrow>
                  (let room2 = room1\<lparr>tricksWon := (tricksWon room1)[nat winnerIndex := n + 1],
                                    currentTrick := [],
                                    currentPlayerIndex := winnerIndex,
                                    lastTrickWinner := winnerIndex\<rparr>
                   in case checkRoundComplete room2 of
                        None \<Rightarrow> None
                      | Some (room3, roundStatus0) \<Rightarrow>
                          if gameComplete roundStatus0 then
                            Some (room3,
                                  [GameOver (finalWinnerOf (scores room3)) (scores room3)
                                     (roundResult roundStatus0)])
                          else if roundComplete roundStatus0 then
                            Some (room3, [RoundCompleteMsg (roundResult roundStatus0) (scores room3)])
                          else Some (room3, []))))"

text \<open>Otherwise the turn passes to the next seat.\<close>

definition nextTurn :: "room \<Rightarrow> room \<times> notification list" where
  "nextTurn room1 =
     (let room2 = room1\<lparr>currentPlayerIndex := js_rem (currentPlayerIndex room1 + 1) 4\<rparr>
      in case seat (players room2) (currentPlayerIndex room2) of
           None \<Rightarrow> (room2, [])
         | Some nextPlayer \<Rightarrow>
             if connected nextPlayer then
               (room2, [YourTurn (getPlayableCards (hand nextPlayer) (currentTrick room2) (trump room2))])
             else (room2, []))"

definition playCardInRoom ::
  "room \<Rightarrow> string \<Rightarrow> nat \<Rightarrow> int \<Rightarrow> (room \<times> notification list) option" where
  "playCardInRoom room sid cardIndex now =
     (if gameState room \<noteq> Playing then Some (room, [ErrorMsg NotPlaying])
      else
        (let playerIndex0 = findIndex (hasId sid) (players room)
         in if playerIndex0 = -1 then Some (room, [ErrorMsg PlayerNotFound])
            else if playerIndex0 \<noteq> currentPlayerIndex room then Some (room, [ErrorMsg NotYourTurn])
            else
              (case seat (players room) playerIndex0 of
                 None \<Rightarrow> None
               | Some player0 \<Rightarrow>
                   (case nth_js (hand player0) (int cardIndex) of
                      None \<Rightarrow> Some (room, [ErrorMsg CardNotFound])
                    | Some None \<Rightarrow> Some (room, [ErrorMsg CardNotFound])
                    | Some (Some c) \<Rightarrow>
                        if \<not> isValidPlay c (hand player0) (currentTrick room) (trump room) then
                          (case currentTrick room of
                             [] \<Rightarrow> Some (room, [ErrorMsg InvalidCard])
                           | t # _ \<Rightarrow>
                               if list_ex (isLeadSuit (suit (cardOf t))) (hand player0)
                               then Some (room, [ErrorMsg (MustFollowSuit (suit (cardOf t)))])
                               else Some (room, [ErrorMsg InvalidCard]))
                        else
                          (let room1 = placeCard room playerIndex0 player0 c cardIndex now
                           in if length (currentTrick room1) = 4 then resolveTrick room1
                              else Some (nextTurn room1))))))"

definition playCard ::
  "registry \<Rightarrow> string \<Rightarrow> string \<Rightarrow> nat \<Rightarrow> int \<Rightarrow> (registry \<times> notification list) option" where
  "playCard reg sid roomId cardIndex now =
     (case map_of (rooms reg) roomId of
        None \<Rightarrow> Some (reg, [ErrorMsg NotPlaying])
      | Some room \<Rightarrow>
          (case playCardInRoom room sid cardIndex now of
             None \<Rightarrow> None
           | Some (room', sent) \<Rightarrow> Some (reg\<lparr>rooms := AList.update roomId room' (rooms reg)\<rparr>, sent)))"

text \<open>The \<open>disconnect\<close> handler: the seat of the first player with the socket's id is
  marked disconnected, and the game pauses when it is in progress and at least one player is
  still connected. The handler acts only when \<open>playerSockets\<close> gives the socket a truthy room
  id, and the empty string is falsy.\<close>

definition disconnectInRoom :: "room \<Rightarrow> string \<Rightarrow> int \<Rightarrow> room" where
  "disconnectInRoom room sid now =
     (let playerIndex0 = findIndex (hasId sid) (players room)
      in if playerIndex0 \<noteq> -1 then
           (let room1 = room\<lparr>players := updateSeat (players room) playerIndex0
                                          (\<lambda>pl. pl\<lparr>connected := False, lastSeen := now\<rparr>),
                             lastActivity := now\<rparr>;
                connectedCount0 = connectedCount room1
            in if (gameState room1 = Playing \<or> gameState room1 = TrumpSelection) \<and> connectedCount0 \<ge> 1
               then room1\<lparr>gameState := Paused\<rparr>
               else room1)
         else room)"

definition disconnect :: "registry \<Rightarrow> string \<Rightarrow> int \<Rightarrow> registry" where
  "disconnect reg sid now =
     (case map_of (playerSockets reg) sid of
        None \<Rightarrow> reg
      | Some roomId \<Rightarrow>
          if roomId = [] then reg
          else
            (let reg1 = (case map_of (rooms reg) roomId of
                           None \<Rightarrow> reg
                         | Some room \<Rightarrow>
                             reg\<lparr>rooms := AList.update roomId (disconnectInRoom room sid now)
                                             (rooms reg)\<rparr>)
             in reg1\<lparr>playerSockets := AList.delete sid (playerSockets reg1)\<rparr>))"

text \<open>The deferred callback that deals the next game three seconds after a round is
  complete.\<close>

definition dealTimer :: "registry \<Rightarrow> string \<Rightarrow> (nat \<Rightarrow> nat) \<Rightarrow> registry" where
  "dealTimer reg roomId rnd =
     (case map_of (rooms reg) roomId of
        None \<Rightarrow> reg
      | Some room \<Rightarrow>
          reg\<lparr>rooms := AList.update roomId (dealCardsForTrumpSelection rnd room) (rooms reg)\<rparr>)"

section \<open>The server as a transition system\<close>

text \<open>One event is one run of a handler or of a timer callback; handlers never interleave.
  The timer callbacks may fire at any time: the model does not keep the timer queue.
  The \<open>rejoinRoom\<close> handler only emits a \<open>joinRoom\<close> message to its own client and
  touches no room, so it is not an event.\<close>

datatype event =
    JoinRoom string string string team bool int "nat \<Rightarrow> nat"
  | SelectTrump string string "trumpValue option" int
  | PlayCard string string nat int
  | Disconnect string int
  | DealTimer string "nat \<Rightarrow> nat"
  | HealthCheck string int
  | CleanupTimer string

fun step :: "event \<Rightarrow> registry \<Rightarrow> registry option" where
  "step (JoinRoom sid roomId nm tm isReconnect now rnd) reg =
     Some (fst (joinRoom reg sid roomId nm tm isReconnect now rnd))"
| "step (SelectTrump sid roomId trumpChoice now) reg =
     Some (fst (selectTrump reg sid roomId trumpChoice now))"
| "step (PlayCard sid roomId cardIndex now) reg =
     map_option fst (playCard reg sid roomId cardIndex now)"
| "step (Disconnect sid now) reg = Some (disconnect reg sid now)"
| "step (DealTimer roomId rnd) reg = Some (dealTimer reg roomId rnd)"
| "step (HealthCheck roomId now) reg = Some (fst (checkRoomHealth reg roomId now))"
| "step (CleanupTimer roomId) reg = Some (cleanupRoom reg roomId)"

definition emptyRegistry :: registry where
  "emptyRegistry = \<lparr>rooms = [], playerSockets = []\<rparr>"

inductive reachable :: "registry \<Rightarrow> bool" where
  reachable_init: "reachable emptyRegistry"
| reachable_step: "reachable reg \<Longrightarrow> step ev reg = Some reg' \<Longrightarrow> reachable reg'"


section \<open>Rooms of the reachable registries\<close>

text \<open>What the \<open>joinRoom\<close> handler does to the room object it joins: \<open>addPlayerToRoom\<close>,
  then the resume step after a reconnection, or \<open>startGame\<close> when the fourth player has
  connected.\<close>

definition joinInRoom ::
  "room \<Rightarrow> string \<Rightarrow> string \<Rightarrow> team \<Rightarrow> bool \<Rightarrow> int \<Rightarrow> (nat \<Rightarrow> nat) \<Rightarrow> room" where
  "joinInRoom room0 sid nm tm isReconnect now rnd =
     (case seatPlayer room0 \<lparr>id_d = sid, name_d = nm\<rparr> tm isReconnect now of
        (room1, JoinFailure e) \<Rightarrow> room1
      | (room1, JoinSuccess pos isReconnection) \<Rightarrow>
          if isReconnection then fst (resumeGame rnd room1 pos)
          else if connectedCount room1 = 4 \<and> gameState room1 = Waiting
          then fst (startGameInRoom room1 now rnd)
          else room1)"

text \<open>One event as seen by one room object: \<open>roomEvent ev r r'\<close> when the event \<open>ev\<close> can
  take a room object from \<open>r\<close> to \<open>r'\<close>.\<close>

inductive roomEvent :: "event \<Rightarrow> room \<Rightarrow> room \<Rightarrow> bool" where
  ev_join:
    "roomEvent (JoinRoom sid roomId nm tm isReconnect now rnd) r
       (joinInRoom r sid nm tm isReconnect now rnd)"
| ev_trump:
    "roomEvent (SelectTrump sid roomId trumpChoice now) r
       (fst (selectTrumpInRoom r sid trumpChoice now))"
| ev_play:
    "playCardInRoom r sid cardIndex now = Some (r', sent) \<Longrightarrow>
       roomEvent (PlayCard sid roomId cardIndex now) r r'"
| ev_disconnect: "roomEvent (Disconnect sid now) r (disconnectInRoom r sid now)"
| ev_deal: "roomEvent (DealTimer roomId rnd) r (dealCardsForTrumpSelection rnd r)"
| ev_health: "roomEvent (HealthCheck roomId now) r (evictInactive r now)"

text \<open>The invariant of every room of a reachable registry.\<close>

definition roomInv :: "room \<Rightarrow> bool" where
  "roomInv r \<longleftrightarrow>
     length (players r) = 4 \<and> length (tricksWon r) = 4 \<and>
     (gameState r = TrumpSelection \<or> gameState r = Playing \<longrightarrow> connectedCount r = 4) \<and>
     (gameState r \<noteq> Completed \<longrightarrow> teamA (scores r) < 10 \<and> teamB (scores r) < 10) \<and>
     (gameState r = Waiting \<or> gameState r = TrumpSelection \<longrightarrow> trump r = None) \<and>
     (\<forall>t \<in> set (currentTrick r). 0 \<le> playerIndex t \<and> playerIndex t < 4)"

text \<open>Two facts about the past of a room are not stored in the room: the phase it was in
  when it was paused, and the trump value of the last \<open>selectTrump\<close> message that the server
  accepted for it. The history records both for every room id. The interrupted phase is set
  by the event that moves the room into \<open>Paused\<close>; the selected trump is set by a
  \<open>selectTrump\<close> message that passes the two checks of the handler.\<close>

record history =
  interruptedPhase :: "string \<Rightarrow> phase"
  selectedTrump :: "string \<Rightarrow> trumpValue option"

definition interrupted :: "registry \<Rightarrow> registry \<Rightarrow> (string \<Rightarrow> phase) \<Rightarrow> string \<Rightarrow> phase" where
  "interrupted reg reg' g roomId =
     (case (map_of (rooms reg) roomId, map_of (rooms reg') roomId) of
        (Some r, Some r') \<Rightarrow>
          if gameState r' = Paused \<and> gameState r \<noteq> Paused then gameState r else g roomId
      | _ \<Rightarrow> g roomId)"

definition selected ::
  "event \<Rightarrow> registry \<Rightarrow> (string \<Rightarrow> trumpValue option) \<Rightarrow> string \<Rightarrow> trumpValue option" where
  "selected ev reg p =
     (case ev of
        SelectTrump sid roomId trumpChoice now \<Rightarrow>
          (case map_of (rooms reg) roomId of
             None \<Rightarrow> p
           | Some room \<Rightarrow>
               if gameState room = TrumpSelection \<and>
                  findIndex (hasId sid) (players room) = currentPlayerIndex room
               then p(roomId := trumpChoice)
               else p)
      | _ \<Rightarrow> p)"

definition recorded :: "event \<Rightarrow> registry \<Rightarrow> registry \<Rightarrow> history \<Rightarrow> history" where
  "recorded ev reg reg' h =
     \<lparr>interruptedPhase = interrupted reg reg' (interruptedPhase h),
      selectedTrump = selected ev reg (selectedTrump h)\<rparr>"

definition noHistory :: history where
  "noHistory = \<lparr>interruptedPhase = (\<lambda>roomId. Waiting), selectedTrump = (\<lambda>roomId. None)\<rparr>"

inductive reachableWithHistory :: "registry \<Rightarrow> history \<Rightarrow> bool" where
  history_init: "reachableWithHistory emptyRegistry noHistory"
| history_step:
    "reachableWithHistory reg h \<Longrightarrow> step ev reg = Some reg' \<Longrightarrow>
       reachableWithHistory reg' (recorded ev reg reg' h)"

text \<open>A sequence of events, replayed from a registry and its history; the replay stops at an
  event on which the server would stop.\<close>

fun replay :: "event list \<Rightarrow> registry \<times> history \<Rightarrow> registry \<times> history" where
  "replay [] s = s"
| "replay (ev # evs) (reg, h) =
     (case step ev reg of
        None \<Rightarrow> (reg, h)
      | Some reg' \<Rightarrow> replay evs (reg', recorded ev reg reg' h))"

definition initial :: "registry \<times> history" where
  "initial = (emptyRegistry, noHistory)"

section \<open>Example data\<close>

definition ex_trick :: "play list" where
  "ex_trick =
     [\<lparr>playerIndex = 0, playerName = ''ann'', cardOf = \<lparr>suit = Hearts, rank = Ace\<rparr>\<rparr>,
      \<lparr>playerIndex = 1, playerName = ''bob'', cardOf = \<lparr>suit = Spades, rank = Seven\<rparr>\<rparr>,
      \<lparr>playerIndex = 2, playerName = ''cat'', cardOf = \<lparr>suit = Hearts, rank = King\<rparr>\<rparr>,
      \<lparr>playerIndex = 3, playerName = ''dan'', cardOf = \<lparr>suit = Spades, rank = Nine\<rparr>\<rparr>]"

definition ex_hand :: "card option list" where
  "ex_hand =
     [Some \<lparr>suit = Hearts, rank = Seven\<rparr>, Some \<lparr>suit = Spades, rank = Eight\<rparr>, None,
      Some \<lparr>suit = Hearts, rank = Jack\<rparr>]"

definition ex_hand_void :: "card option list" where
  "ex_hand_void =
     [Some \<lparr>suit = Clubs, rank = Seven\<rparr>, None, Some \<lparr>suit = Spades, rank = Eight\<rparr>]"

text \<open>A room at the end of a deal, with the given trick counters and trump selector.\<close>

definition scoringRoom :: "nat list \<Rightarrow> int \<Rightarrow> room" where
  "scoringRoom tw sel =
     (initializeRoom ''r'' 0)\<lparr>gameState := Playing, trump := Some (SuitName Hearts), tricksWon := tw,
                               trumpSelector := sel, currentPlayerIndex := sel\<rparr>"

text \<open>The other team, \<open>t === 'A' ? 'B' : 'A'\<close>.\<close>

definition otherTeam :: "team \<Rightarrow> team" where
  "otherTeam tm = (if tm = TeamA then TeamB else TeamA)"

text \<open>A paused room with bob disconnected, a lobby with two free seats, and a registry that
  holds both.\<close>

definition ex_player :: "string \<Rightarrow> string \<Rightarrow> int \<Rightarrow> bool \<Rightarrow> card option list \<Rightarrow> player" where
  "ex_player sid nm pos conn h =
     \<lparr>id_p = sid, name = nm, team = getTeamForPosition pos, hand = h, connected = conn,
      position = pos, lastSeen = 0\<rparr>"

definition ex_room :: room where
  "ex_room =
     (initializeRoom ''r'' 0)
       \<lparr>players := [Some (ex_player ''s0'' ''ann'' 0 True ex_hand_void),
                    Some (ex_player ''s1'' ''bob'' 1 False ex_hand),
                    Some (ex_player ''s2'' ''cat'' 2 True ex_hand_void),
                    Some (ex_player ''s3'' ''dan'' 3 True ex_hand)],
        gameState := Paused, trump := Some (SuitName Spades), trumpSelector := 0, currentPlayerIndex := 1,
        currentTrick := take 1 ex_trick, tricksWon := [1, 0, 0, 0]\<rparr>"

definition ex_lobby :: room where
  "ex_lobby =
     (initializeRoom ''l'' 0)
       \<lparr>players := [Some (ex_player ''s4'' ''ann'' 0 True []),
                    Some (ex_player ''s5'' ''bob'' 1 False []), None, None]\<rparr>"

definition ex_registry :: registry where
  "ex_registry =
     \<lparr>rooms = [(''r'', ex_room), (''l'', ex_lobby)],
      playerSockets = [(''s0'', ''r''), (''s2'', ''r''), (''s3'', ''r''), (''s4'', ''l'')]\<rparr>"

text \<open>A random source, and a fully seated room whose seat 1 is about to select the trump.\<close>

definition ex_rnd :: "nat \<Rightarrow> nat" where
  "ex_rnd i = 7 * i + 3"

definition ex_seated :: room where
  "ex_seated =
     (initializeRoom ''t'' 0)
       \<lparr>players := [Some (ex_player ''s0'' ''ann'' 0 True []),
                    Some (ex_player ''s1'' ''bob'' 1 True []),
                    Some (ex_player ''s2'' ''cat'' 2 True []),
                    Some (ex_player ''s3'' ''dan'' 3 True [])],
        gameState := TrumpSelection, trumpSelector := 1, currentPlayerIndex := 1\<rparr>"

text \<open>A match of five deals in one room. The random source \<open>ex_sorted\<close> makes every shuffle
  leave the deck in the order of \<open>createDeck\<close>. In a deal of the first kind seat 0 selects
  Diamonds and seat 1, who holds all the diamonds, takes the eight tricks; in a deal of the
  second kind seat 2 selects Spades and seat 3, who holds all the spades, takes the eight
  tricks. Team B defends in both and scores 2 points for each sweep.\<close>

definition ex_sorted :: "nat \<Rightarrow> nat" where
  "ex_sorted i = i"

definition ex_joins :: "event list" where
  "ex_joins =
     [JoinRoom ''s0'' ''r'' ''ann'' TeamA False 0 ex_sorted,
      JoinRoom ''s1'' ''r'' ''bob'' TeamB False 1 ex_sorted,
      JoinRoom ''s2'' ''r'' ''cat'' TeamA False 2 ex_sorted,
      JoinRoom ''s3'' ''r'' ''dan'' TeamB False 3 ex_sorted]"

definition ex_deal_a :: "event list" where
  "ex_deal_a =
     [SelectTrump ''s0'' ''r'' (Some (SuitName Diamonds)) 10,
      PlayCard ''s0'' ''r'' 0 11,
      PlayCard ''s1'' ''r'' 0 12,
      PlayCard ''s2'' ''r'' 0 13,
      PlayCard ''s3'' ''r'' 0 14,
      PlayCard ''s1'' ''r'' 1 15,
      PlayCard ''s2'' ''r'' 1 16,
      PlayCard ''s3'' ''r'' 1 17,
      PlayCard ''s0'' ''r'' 1 18,
      PlayCard ''s1'' ''r'' 2 19,
      PlayCard ''s2'' ''r'' 2 20,
      PlayCard ''s3'' ''r'' 2 21,
      PlayCard ''s0'' ''r'' 2 22,
      PlayCard ''s1'' ''r'' 3 23,
      PlayCard ''s2'' ''r'' 3 24,
      PlayCard ''s3'' ''r'' 3 25,
      PlayCard ''s0'' ''r'' 3 26,
      PlayCard ''s1'' ''r'' 4 27,
      PlayCard ''s2'' ''r'' 4 28,
      PlayCard ''s3'' ''r'' 4 29,
      PlayCard ''s0'' ''r'' 4 30,
      PlayCard ''s1'' ''r'' 5 31,
      PlayCard ''s2'' ''r'' 5 32,
      PlayCard ''s3'' ''r'' 5 33,
      PlayCard ''s0'' ''r'' 5 34,
      PlayCard ''s1'' ''r'' 6 35,
      PlayCard ''s2'' ''r'' 6 36,
      PlayCard ''s3'' ''r'' 6 37,
      PlayCard ''s0'' ''r'' 6 38,
      PlayCard ''s1'' ''r'' 7 39,
      PlayCard ''s2'' ''r'' 7 40,
      PlayCard ''s3'' ''r'' 7 41,
      PlayCard ''s0'' ''r'' 7 42]"

definition ex_deal_b :: "event list" where
  "ex_deal_b =
     [SelectTrump ''s2'' ''r'' (Some (SuitName Spades)) 50,
      PlayCard ''s2'' ''r'' 0 51,
      PlayCard ''s3'' ''r'' 0 52,
      PlayCard ''s0'' ''r'' 0 53,
      PlayCard ''s1'' ''r'' 0 54,
      PlayCard ''s3'' ''r'' 1 55,
      PlayCard ''s0'' ''r'' 1 56,
      PlayCard ''s1'' ''r'' 1 57,
      PlayCard ''s2'' ''r'' 1 58,
      PlayCard ''s3'' ''r'' 2 59,
      PlayCard ''s0'' ''r'' 2 60,
      PlayCard ''s1'' ''r'' 2 61,
      PlayCard ''s2'' ''r'' 2 62,
      PlayCard ''s3'' ''r'' 3 63,
      PlayCard ''s0'' ''r'' 3 64,
      PlayCard ''s1'' ''r'' 3 65,
      PlayCard ''s2'' ''r'' 3 66,
      PlayCard ''s3'' ''r'' 4 67,
      PlayCard ''s0'' ''r'' 4 68,
      PlayCard ''s1'' ''r'' 4 69,
      PlayCard ''s2'' ''r'' 4 70,
      PlayCard ''s3'' ''r'' 5 71,
      PlayCard ''s0'' ''r'' 5 72,
      PlayCard ''s1'' ''r'' 5 73,
      PlayCard ''s2'' ''r'' 5 74,
      PlayCard ''s3'' ''r'' 6 75,
      PlayCard ''s0'' ''r'' 6 76,
      PlayCard ''s1'' ''r'' 6 77,
      PlayCard ''s2'' ''r'' 6 78,
      PlayCard ''s3'' ''r'' 7 79,
      PlayCard ''s0'' ''r'' 7 80,
      PlayCard ''s1'' ''r'' 7 81,
      PlayCard ''s2'' ''r'' 7 82]"


definition ex_match :: "event list" where
  "ex_match =
     ex_joins @ ex_deal_a @ [DealTimer ''r'' ex_sorted] @ ex_deal_b @ [DealTimer ''r'' ex_sorted] @
     ex_deal_a @ [DealTimer ''r'' ex_sorted] @ ex_deal_b @ [DealTimer ''r'' ex_sorted] @ ex_deal_a"

text \<open>The registry before the last card of the first deal, before the last card of the
  match, and at the end of the match.\<close>

definition ex_deal_end_room :: room where
  "ex_deal_end_room =
     \<lparr>id_r = ''r'',
        players =
          [Some
            \<lparr>id_p = ''s0'', name = ''ann'', team = TeamA,
               hand =
                 [None, None, None, None, None, None, None,
                  Some \<lparr>suit = Hearts, rank = Ace\<rparr>],
               connected = True, position = 0, lastSeen = 0\<rparr>,
           Some
            \<lparr>id_p = ''s1'', name = ''bob'', team = TeamB,
               hand = [None, None, None, None, None, None, None, None],
               connected = True, position = 1, lastSeen = 1\<rparr>,
           Some
            \<lparr>id_p = ''s2'', name = ''cat'', team = TeamA,
               hand = [None, None, None, None, None, None, None, None],
               connected = True, position = 2, lastSeen = 2\<rparr>,
           Some
            \<lparr>id_p = ''s3'', name = ''dan'', team = TeamB,
               hand = [None, None, None, None, None, None, None, None],
               connected = True, position = 3, lastSeen = 3\<rparr>],
        gameState = Playing, deck = [], trump = Some (SuitName Diamonds),
        trumpSelector = 0, currentPlayerIndex = 0,
        currentTrick =
          [\<lparr>playerIndex = 1, playerName = ''bob'',
              cardOf = \<lparr>suit = Diamonds, rank = Ace\<rparr>\<rparr>,
           \<lparr>playerIndex = 2, playerName = ''cat'',
              cardOf = \<lparr>suit = Clubs, rank = Ace\<rparr>\<rparr>,
           \<lparr>playerIndex = 3, playerName = ''dan'',
              cardOf = \<lparr>suit = Spades, rank = Ace\<rparr>\<rparr>],
        tricksWon = [0, 7, 0, 0], scores = \<lparr>teamA = 0, teamB = 0\<rparr>,
        round = 1, currentRoundIndex = 0, lastTrickWinner = 1,
        createdAt = 0, lastActivity = 41\<rparr>"

definition ex_deal_end :: registry where
  "ex_deal_end =
     \<lparr>rooms = [(''r'', ex_deal_end_room)],
      playerSockets = [(''s0'', ''r''), (''s1'', ''r''), (''s2'', ''r''), (''s3'', ''r'')]\<rparr>"

definition ex_last_card_room :: room where
  "ex_last_card_room =
     \<lparr>id_r = ''r'',
        players =
          [Some
            \<lparr>id_p = ''s0'', name = ''ann'', team = TeamA,
               hand =
                 [None, None, None, None, None, None, None,
                  Some \<lparr>suit = Hearts, rank = Ace\<rparr>],
               connected = True, position = 0, lastSeen = 0\<rparr>,
           Some
            \<lparr>id_p = ''s1'', name = ''bob'', team = TeamB,
               hand = [None, None, None, None, None, None, None, None],
               connected = True, position = 1, lastSeen = 1\<rparr>,
           Some
            \<lparr>id_p = ''s2'', name = ''cat'', team = TeamA,
               hand = [None, None, None, None, None, None, None, None],
               connected = True, position = 2, lastSeen = 2\<rparr>,
           Some
            \<lparr>id_p = ''s3'', name = ''dan'', team = TeamB,
               hand = [None, None, None, None, None, None, None, None],
               connected = True, position = 3, lastSeen = 3\<rparr>],
        gameState = Playing, deck = [], trump = Some (SuitName Diamonds),
        trumpSelector = 0, currentPlayerIndex = 0,
        currentTrick =
          [\<lparr>playerIndex = 1, playerName = ''bob'',
              cardOf = \<lparr>suit = Diamonds, rank = Ace\<rparr>\<rparr>,
           \<lparr>playerIndex = 2, playerName = ''cat'',
              cardOf = \<lparr>suit = Clubs, rank = Ace\<rparr>\<rparr>,
           \<lparr>playerIndex = 3, playerName = ''dan'',
              cardOf = \<lparr>suit = Spades, rank = Ace\<rparr>\<rparr>],
        tricksWon = [0, 7, 0, 0], scores = \<lparr>teamA = 0, teamB = 8\<rparr>,
        round = 1, currentRoundIndex = 0, lastTrickWinner = 1,
        createdAt = 0, lastActivity = 41\<rparr>"

definition ex_last_card :: registry where
  "ex_last_card =
     \<lparr>rooms = [(''r'', ex_last_card_room)],
      playerSockets = [(''s0'', ''r''), (''s1'', ''r''), (''s2'', ''r''), (''s3'', ''r'')]\<rparr>"

definition ex_match_end_room :: room where
  "ex_match_end_room =
     \<lparr>id_r = ''r'',
        players =
          [Some
            \<lparr>id_p = ''s0'', name = ''ann'', team = TeamA,
               hand = [None, None, None, None, None, None, None, None],
               connected = True, position = 0, lastSeen = 0\<rparr>,
           Some
            \<lparr>id_p = ''s1'', name = ''bob'', team = TeamB,
               hand = [None, None, None, None, None, None, None, None],
               connected = True, position = 1, lastSeen = 1\<rparr>,
           Some
            \<lparr>id_p = ''s2'', name = ''cat'', team = TeamA,
               hand = [None, None, None, None, None, None, None, None],
               connected = True, position = 2, lastSeen = 2\<rparr>,
           Some
            \<lparr>id_p = ''s3'', name = ''dan'', team = TeamB,
               hand = [None, None, None, None, None, None, None, None],
               connected = True, position = 3, lastSeen = 3\<rparr>],
        gameState = Completed, deck = [], trump = Some (SuitName Diamonds),
        trumpSelector = 0, currentPlayerIndex = 1, currentTrick = [],
        tricksWon = [0, 8, 0, 0], scores = \<lparr>teamA = 0, teamB = 10\<rparr>,
        round = 1, currentRoundIndex = 0, lastTrickWinner = 1,
        createdAt = 0, lastActivity = 42\<rparr>"

definition ex_match_end :: registry where
  "ex_match_end =
     \<lparr>rooms = [(''r'', ex_match_end_room)],
      playerSockets = [(''s0'', ''r''), (''s1'', ''r''), (''s2'', ''r''), (''s3'', ''r'')]\<rparr>"

text \<open>Two short traces that end in a paused room: a disconnection after the trump has been
  selected, and a disconnection during the trump selection.\<close>

definition ex_pause_playing :: "event list" where
  "ex_pause_playing =
     ex_joins @ [SelectTrump ''s0'' ''r'' (Some (SuitName Diamonds)) 10, Disconnect ''s2'' 11]"

definition ex_pause_selecting :: "event list" where
  "ex_pause_selecting = ex_joins @ [Disconnect ''s1'' 10]"

text \<open>A trace in which the trump selector sends \<open>selectTrump\<close> with the trump \<open>null\<close>, and
  a trace in which the socket of ann joins a second room before the first one fills up.\<close>

definition ex_null_trump :: "event list" where
  "ex_null_trump = ex_joins @ [SelectTrump ''s0'' ''r'' None 10]"








section \<open>Legal plays\<close>

lemma pushIndices_filter:
  "pushIndices p i xs = map (\<lambda>k. i + k) (filter (\<lambda>k. p (xs ! k)) [0..<length xs])"
proof (induction xs arbitrary: i)
  case Nil
  then show ?case by simp
next
  case (Cons x xs)
  have upt: "[0..<length (x # xs)] = 0 # map Suc [0..<length xs]"
    by (simp add: upt_conv_Cons map_Suc_upt del: upt_Suc)
  show ?case
    by (simp only: upt) (simp add: Cons.IH filter_map comp_def)
qed

lemma pushIndices_0: "pushIndices p 0 xs = filter (\<lambda>k. p (xs ! k)) [0..<length xs]"
  by (simp add: pushIndices_filter)

lemma pushIndices_nonempty: "(pushIndices p i xs \<noteq> []) = (\<exists>x \<in> set xs. p x)"
  by (induction xs arbitrary: i) auto

text \<open>Claim C1. For every hand of nullable cards, every trick and every trump: when the trick
  is not empty and the hand holds a card of the lead suit (the suit of the first card of the
  trick), \<open>getPlayableCards\<close> returns exactly the indices of the lead-suit cards of the hand, in
  increasing order; when the trick is not empty and the hand holds no card of the lead suit, it
  returns exactly the indices of the non-null cards; and for the empty trick it returns exactly
  the indices of the non-null cards.\<close>

theorem getPlayableCards_follow_suit:
  "(trick \<noteq> [] \<and> (\<exists>c \<in> set hnd. isLeadSuit (suit (cardOf (hd trick))) c) \<longrightarrow>
      getPlayableCards hnd trick tr =
        filter (\<lambda>i. \<exists>c. hnd ! i = Some c \<and> suit c = suit (cardOf (hd trick))) [0..<length hnd])
   \<and> (trick \<noteq> [] \<and> \<not> (\<exists>c \<in> set hnd. isLeadSuit (suit (cardOf (hd trick))) c) \<longrightarrow>
      getPlayableCards hnd trick tr = filter (\<lambda>i. hnd ! i \<noteq> None) [0..<length hnd])
   \<and> getPlayableCards hnd [] tr = filter (\<lambda>i. hnd ! i \<noteq> None) [0..<length hnd]"
proof (cases trick)
  case Nil
  then show ?thesis
    by (simp add: getPlayableCards_def pushIndices_0)
next
  case (Cons t ts)
  let ?s = "suit (cardOf t)"
  have lead: "isLeadSuit ?s c = (\<exists>c'. c = Some c' \<and> suit c' = ?s)" for c
    by (cases c) (simp_all add: isLeadSuit_def)
  have ne: "(0 < length (pushIndices (isLeadSuit ?s) 0 hnd)) = (\<exists>x \<in> set hnd. isLeadSuit ?s x)"
    using pushIndices_nonempty [of "isLeadSuit ?s" 0 hnd] by simp
  have follow: "getPlayableCards hnd trick tr =
      (if \<exists>x \<in> set hnd. isLeadSuit ?s x then pushIndices (isLeadSuit ?s) 0 hnd
       else pushIndices (\<lambda>c. c \<noteq> None) 0 hnd)"
    unfolding getPlayableCards_def Cons Let_def list.case ne ..
  have empty: "getPlayableCards hnd [] tr = pushIndices (\<lambda>c. c \<noteq> None) 0 hnd"
    by (simp add: getPlayableCards_def)
  have idx: "pushIndices (isLeadSuit ?s) 0 hnd =
      filter (\<lambda>i. \<exists>c. hnd ! i = Some c \<and> suit c = ?s) [0..<length hnd]"
    by (simp add: pushIndices_0 lead)
  show ?thesis
    unfolding follow empty idx by (simp add: Cons pushIndices_0)
qed

theorem getPlayableCards_follow_suit_witness:
  "(take 2 ex_trick \<noteq> [] \<and> (\<exists>c \<in> set ex_hand. isLeadSuit (suit (cardOf (hd (take 2 ex_trick)))) c) \<and>
      getPlayableCards ex_hand (take 2 ex_trick) (Some Spades) = [0, 3])
   \<and> (take 2 ex_trick \<noteq> [] \<and>
        \<not> (\<exists>c \<in> set ex_hand_void. isLeadSuit (suit (cardOf (hd (take 2 ex_trick)))) c) \<and>
      getPlayableCards ex_hand_void (take 2 ex_trick) (Some Spades) = [0, 2])
   \<and> getPlayableCards ex_hand [] (Some Spades) = [0, 1, 3]"
  using getPlayableCards_follow_suit [of "take 2 ex_trick" ex_hand "Some Spades"]
        getPlayableCards_follow_suit [of "take 2 ex_trick" ex_hand_void "Some Spades"]
  by (simp add: ex_hand_def ex_hand_void_def ex_trick_def isLeadSuit_def)

section \<open>Trick resolution\<close>

lemma rankValues_inj: "rankValues r = rankValues r' \<Longrightarrow> r = r'"
  by (cases r; cases r') simp_all

lemma rankValues_bounds: "1 \<le> rankValues r \<and> rankValues r \<le> 8"
  by (cases r) simp_all

lemma trump_outranks:
  "Some (suit c) = tr \<Longrightarrow> Some (suit c') \<noteq> tr \<Longrightarrow>
     getCardValue c' tr < getCardValue c tr"
  using rankValues_bounds [of "rank c"] rankValues_bounds [of "rank c'"]
  by (simp add: getCardValue_def Let_def)

lemma same_suit_same_value:
  "suit c = suit c' \<Longrightarrow> getCardValue c tr = getCardValue c' tr \<Longrightarrow> c = c'"
  by (cases c; cases c') (auto simp: getCardValue_def Let_def dest: rankValues_inj split: if_splits)

lemma foldl_higher_mem: "foldl (higher tr) x xs \<in> set (x # xs)"
  by (induction xs arbitrary: x) (auto simp: higher_def)

lemma foldl_higher_ge:
  "getCardValue (cardOf x) tr \<le> getCardValue (cardOf (foldl (higher tr) x xs)) tr"
proof (induction xs arbitrary: x)
  case Nil
  then show ?case by simp
next
  case (Cons y ys)
  have "getCardValue (cardOf x) tr \<le> getCardValue (cardOf (higher tr x y)) tr"
    by (simp add: higher_def)
  also have "\<dots> \<le> getCardValue (cardOf (foldl (higher tr) (higher tr x y) ys)) tr"
    by (rule Cons.IH)
  finally show ?case by simp
qed

lemma foldl_higher_max:
  "t \<in> set (x # xs) \<Longrightarrow>
     getCardValue (cardOf t) tr \<le> getCardValue (cardOf (foldl (higher tr) x xs)) tr"
proof (induction xs arbitrary: x)
  case Nil
  then show ?case by simp
next
  case (Cons y ys)
  have step: "getCardValue (cardOf x) tr \<le> getCardValue (cardOf (higher tr x y)) tr"
             "getCardValue (cardOf y) tr \<le> getCardValue (cardOf (higher tr x y)) tr"
    by (simp_all add: higher_def)
  from Cons.prems consider "t = x" | "t = y" | "t \<in> set ys" by auto
  then show ?case
  proof cases
    case 1
    with step(1) foldl_higher_ge [of "higher tr x y" tr ys] show ?thesis by simp
  next
    case 2
    with step(2) foldl_higher_ge [of "higher tr x y" tr ys] show ?thesis by simp
  next
    case 3
    then have "t \<in> set (higher tr x y # ys)" by simp
    from Cons.IH [OF this] show ?thesis by simp
  qed
qed

lemma reduce1_higher:
  assumes "xs \<noteq> []"
  shows "\<exists>w. reduce1 (higher tr) xs = Some w \<and> w \<in> set xs \<and>
           (\<forall>t \<in> set xs. getCardValue (cardOf t) tr \<le> getCardValue (cardOf w) tr)"
proof (cases xs)
  case Nil
  with assms show ?thesis by simp
next
  case (Cons x ys)
  show ?thesis
    unfolding Cons reduce1.simps
    using foldl_higher_mem [of tr x ys] foldl_higher_max [of _ x ys tr] by blast
qed

text \<open>Claim C2. For every trick of four entries and every trump: \<open>getTrickWinner\<close> returns an
  entry of the trick. When some entry's card has the trump suit, the winner is a trump-suited
  entry whose \<open>getCardValue\<close> is maximal among the trump-suited entries, and indeed among all
  entries: every entry that is not of the trump suit has a strictly smaller value, whatever its
  rank. Otherwise the winner is an entry of the lead suit (the suit of the first entry) whose
  value is maximal among the entries of the lead suit. In both cases an entry of the same
  suit with the same value holds the same card as the winner. Since \<open>getCardValue\<close> adds 10
  to a trump card, every trump card outranks every card that is not trump.\<close>

theorem getTrickWinner_highest:
  assumes len: "length trick = 4"
  shows "\<exists>w. getTrickWinner trick tr = Some w \<and> w \<in> set trick \<and>
     (if \<exists>t \<in> set trick. Some (suit (cardOf t)) = tr
      then Some (suit (cardOf w)) = tr \<and>
           (\<forall>t \<in> set trick. getCardValue (cardOf t) tr \<le> getCardValue (cardOf w) tr) \<and>
           (\<forall>t \<in> set trick. Some (suit (cardOf t)) \<noteq> tr \<longrightarrow>
                getCardValue (cardOf t) tr < getCardValue (cardOf w) tr) \<and>
           (\<forall>t \<in> set trick. Some (suit (cardOf t)) = tr \<and>
                getCardValue (cardOf t) tr = getCardValue (cardOf w) tr \<longrightarrow> cardOf t = cardOf w)
      else suit (cardOf w) = suit (cardOf (hd trick)) \<and>
           (\<forall>t \<in> set trick. suit (cardOf t) = suit (cardOf (hd trick)) \<longrightarrow>
                getCardValue (cardOf t) tr \<le> getCardValue (cardOf w) tr) \<and>
           (\<forall>t \<in> set trick. suit (cardOf t) = suit (cardOf (hd trick)) \<and>
                getCardValue (cardOf t) tr = getCardValue (cardOf w) tr \<longrightarrow> cardOf t = cardOf w))
   \<and> (\<forall>c c'. Some (suit c) = tr \<and> Some (suit c') \<noteq> tr \<longrightarrow>
          getCardValue c' tr < getCardValue c tr)"
proof -
  have outrank: "\<forall>c c'. Some (suit c) = tr \<and> Some (suit c') \<noteq> tr \<longrightarrow>
          getCardValue c' tr < getCardValue c tr"
    using trump_outranks by blast
  from len obtain t0 ts where trick: "trick = t0 # ts" by (cases trick) auto
  let ?isT = "\<lambda>t. Some (suit (cardOf t)) = tr"
  let ?isL = "\<lambda>t. suit (cardOf t) = suit (cardOf t0)"
  show ?thesis
  proof (cases "\<exists>t \<in> set trick. ?isT t")
    case True
    then have ne: "filter ?isT trick \<noteq> []" by (simp add: filter_empty_conv)
    from reduce1_higher [OF ne, of tr] obtain w where
      w: "reduce1 (higher tr) (filter ?isT trick) = Some w" "w \<in> set (filter ?isT trick)"
         "\<forall>t \<in> set (filter ?isT trick). getCardValue (cardOf t) tr \<le> getCardValue (cardOf w) tr"
      by blast
    have gw: "getTrickWinner trick tr = Some w"
      using ne w(1) by (simp add: getTrickWinner_def trick Let_def)
    have wT: "?isT w" and wmem: "w \<in> set trick" using w(2) by simp_all
    have lt: "getCardValue (cardOf t) tr < getCardValue (cardOf w) tr" if "\<not> ?isT t" for t
      using trump_outranks [of "cardOf w" tr "cardOf t"] wT that by simp
    have le: "getCardValue (cardOf t) tr \<le> getCardValue (cardOf w) tr" if "t \<in> set trick" for t
    proof (cases "?isT t")
      case True
      with that w(3) show ?thesis by simp
    next
      case False
      from lt [OF this] show ?thesis by simp
    qed
    have uniq: "cardOf t = cardOf w"
      if "?isT t" "getCardValue (cardOf t) tr = getCardValue (cardOf w) tr" for t
    proof -
      from that(1) wT have "suit (cardOf t) = suit (cardOf w)" by (metis option.inject)
      then show ?thesis using that(2) by (rule same_suit_same_value)
    qed
    show ?thesis
      using True gw wmem wT le lt uniq outrank by auto
  next
    case False
    then have emp: "filter ?isT trick = []" by (simp add: filter_empty_conv)
    have ne: "filter ?isL trick \<noteq> []" by (simp add: trick)
    from reduce1_higher [OF ne, of tr] obtain w where
      w: "reduce1 (higher tr) (filter ?isL trick) = Some w" "w \<in> set (filter ?isL trick)"
         "\<forall>t \<in> set (filter ?isL trick). getCardValue (cardOf t) tr \<le> getCardValue (cardOf w) tr"
      by blast
    have gw: "getTrickWinner trick tr = Some w"
      using emp w(1) by (simp add: getTrickWinner_def trick Let_def)
    have wL: "?isL w" and wmem: "w \<in> set trick" using w(2) by simp_all
    have uniq: "cardOf t = cardOf w"
      if "?isL t" "getCardValue (cardOf t) tr = getCardValue (cardOf w) tr" for t
    proof -
      from that(1) wL have "suit (cardOf t) = suit (cardOf w)" by simp
      then show ?thesis using that(2) by (rule same_suit_same_value)
    qed
    have hd: "hd trick = t0" by (simp add: trick)
    show ?thesis
      unfolding hd using False gw wmem wL w(3) uniq outrank by auto
  qed
qed

theorem getTrickWinner_highest_witness:
  "length ex_trick = 4 \<and>
   getTrickWinner ex_trick (Some Spades) = Some (ex_trick ! 3) \<and>
   getTrickWinner ex_trick (Some Clubs) = Some (ex_trick ! 0) \<and>
   getCardValue \<lparr>suit = Hearts, rank = Ace\<rparr> (Some Spades) <
     getCardValue \<lparr>suit = Spades, rank = Seven\<rparr> (Some Spades)"
  using getTrickWinner_highest [of ex_trick "Some Spades"]
        getTrickWinner_highest [of ex_trick "Some Clubs"]
  by (simp add: ex_trick_def getTrickWinner_def higher_def getCardValue_def)

section \<open>Scoring of a deal\<close>

lemma foldl_plus_sum_list: "foldl (+) a xs = a + sum_list (xs :: nat list)"
  by (induction xs arbitrary: a) simp_all

lemma getTeamForPosition_member:
  "pos \<in> set (TEAM_POSITIONS tm) \<Longrightarrow> getTeamForPosition pos = tm"
  by (cases tm) (auto simp: getTeamForPosition_def)

text \<open>Claim C3. For every room whose four trick counters sum to 8 and whose trump selector
  sits in a seat of team \<open>trumpT\<close> (so that the other team defends): \<open>checkRoundComplete\<close>
  reports the round as complete, with team A's tricks the sum of seats 0 and 2 and team B's
  the sum of seats 1 and 3; it awards 0 points and names no winner on a 4-4 split; it awards
  exactly 2 points when the defending team took all 8 tricks; it awards exactly 1 point for
  every other majority, a sweep by the tr team included. The points go to the score of the
  team with more tricks, and the other score does not change.\<close>

theorem checkRoundComplete_points:
  assumes tw: "tricksWon room = [w0, w1, w2, w3]"
    and total: "w0 + w1 + w2 + w3 = 8"
    and sel: "trumpSelector room \<in> set (TEAM_POSITIONS trumpT)"
  shows "\<exists>room' st rr.
     checkRoundComplete room = Some (room', st) \<and> roundComplete st \<and> roundResult st = Some rr \<and>
     teamATricks rr = w0 + w2 \<and> teamBTricks rr = w1 + w3 \<and>
     trumpTeam rr = trumpT \<and> defendingTeam rr = (if trumpT = TeamA then TeamB else TeamA) \<and>
     winningTeam rr =
       (if w0 + w2 > w1 + w3 then Some TeamA else if w1 + w3 > w0 + w2 then Some TeamB else None) \<and>
     pointsAwarded rr =
       (if w0 + w2 = 4 \<and> w1 + w3 = 4 then 0
        else if (w0 + w2 = 8 \<and> trumpT = TeamB) \<or> (w1 + w3 = 8 \<and> trumpT = TeamA) then 2
        else 1) \<and>
     teamA (scores room') =
       teamA (scores room) + (if w0 + w2 > w1 + w3 then pointsAwarded rr else 0) \<and>
     teamB (scores room') =
       teamB (scores room) + (if w1 + w3 > w0 + w2 then pointsAwarded rr else 0)"
proof -
  have tt: "getTeamForPosition (trumpSelector room) = trumpT"
    using sel by (rule getTeamForPosition_member)
  have played: "foldl (+) 0 (tricksWon room) = 8"
    using total by (simp add: tw)
  have reads: "nth_js (tricksWon room) 0 = Some w0" "nth_js (tricksWon room) 1 = Some w1"
    "nth_js (tricksWon room) 2 = Some w2" "nth_js (tricksWon room) 3 = Some w3"
    by (simp_all add: nth_js_def tw)
  consider (a) "w0 + w2 > w1 + w3" | (b) "w1 + w3 > w0 + w2" | (tie) "w0 + w2 = 4" "w1 + w3 = 4"
    using total by linarith
  then show ?thesis
  proof cases
    case a
    then have ne: "\<not> (w0 + w2 = 4 \<and> w1 + w3 = 4)" "\<not> w1 + w3 = 8" using total by linarith+
    show ?thesis
      using a ne total
      by (cases trumpT) (auto simp: checkRoundComplete_def played reads tt Let_def)
  next
    case b
    then have ne: "\<not> (w0 + w2 = 4 \<and> w1 + w3 = 4)" "\<not> w0 + w2 = 8" "\<not> w0 + w2 > w1 + w3"
      using total by linarith+
    show ?thesis
      using b ne total
      by (cases trumpT) (auto simp: checkRoundComplete_def played reads tt Let_def)
  next
    case tie
    then show ?thesis
      by (cases trumpT) (auto simp: checkRoundComplete_def played reads tt Let_def)
  qed
qed

theorem checkRoundComplete_points_witness:
  "tricksWon (scoringRoom [0, 5, 0, 3] 0) = [0, 5, 0, 3] \<and> (0::nat) + 5 + 0 + 3 = 8 \<and>
   trumpSelector (scoringRoom [0, 5, 0, 3] 0) \<in> set (TEAM_POSITIONS TeamA) \<and>
   map_option (\<lambda>(r, st). (scores r, map_option pointsAwarded (roundResult st)))
     (checkRoundComplete (scoringRoom [0, 5, 0, 3] 0)) = Some (\<lparr>teamA = 0, teamB = 2\<rparr>, Some 2) \<and>
   map_option (\<lambda>(r, st). (scores r, map_option pointsAwarded (roundResult st)))
     (checkRoundComplete (scoringRoom [6, 0, 2, 0] 2)) = Some (\<lparr>teamA = 1, teamB = 0\<rparr>, Some 1) \<and>
   map_option (\<lambda>(r, st). (scores r, map_option pointsAwarded (roundResult st)))
     (checkRoundComplete (scoringRoom [1, 2, 3, 2] 1)) = Some (\<lparr>teamA = 0, teamB = 0\<rparr>, Some 0)"
  using checkRoundComplete_points [of "scoringRoom [0, 5, 0, 3] 0" 0 5 0 3 TeamA]
        checkRoundComplete_points [of "scoringRoom [6, 0, 2, 0] 2" 6 0 2 0 TeamA]
        checkRoundComplete_points [of "scoringRoom [1, 2, 3, 2] 1" 1 2 3 2 TeamB]
  by (simp add: scoringRoom_def initializeRoom_def checkRoundComplete_def nth_js_def
        getTeamForPosition_def js_rem_def)

section \<open>Reconnection\<close>

lemmas ex_defs = ex_registry_def ex_room_def ex_lobby_def ex_player_def initializeRoom_def
  ex_hand_def ex_hand_void_def ex_trick_def


lemma findIndexFrom_cases:
  "0 \<le> i \<Longrightarrow>
   (findIndexFrom p i xs = -1 \<and> (\<forall>x \<in> set xs. \<not> p x)) \<or>
   (\<exists>k < length xs. findIndexFrom p i xs = i + int k \<and> p (xs ! k) \<and> (\<forall>j < k. \<not> p (xs ! j)))"
proof (induction xs arbitrary: i)
  case Nil
  then show ?case by simp
next
  case (Cons x xs)
  show ?case
  proof (cases "p x")
    case True
    then show ?thesis by auto
  next
    case False
    from Cons.prems have "0 \<le> i + 1" by simp
    from Cons.IH [OF this] show ?thesis
    proof
      assume "findIndexFrom p (i + 1) xs = - 1 \<and> (\<forall>x\<in>set xs. \<not> p x)"
      with False show ?thesis by simp
    next
      assume "\<exists>k<length xs. findIndexFrom p (i + 1) xs = i + 1 + int k \<and> p (xs ! k) \<and> (\<forall>j<k. \<not> p (xs ! j))"
      then obtain k where k: "k < length xs" "findIndexFrom p (i + 1) xs = i + 1 + int k"
        "p (xs ! k)" "\<forall>j<k. \<not> p (xs ! j)" by blast
      have "\<forall>j<Suc k. \<not> p ((x # xs) ! j)"
        using False k(4) by (auto simp: nth_Cons split: nat.splits)
      with k False show ?thesis
        by (intro disjI2 exI [of _ "Suc k"]) simp
    qed
  qed
qed

lemma findIndex_none: "(findIndex p xs = -1) = (\<forall>x \<in> set xs. \<not> p x)"
  using findIndexFrom_cases [of 0 p xs]
  by (auto simp: findIndex_def dest: nth_mem)

lemma findIndex_some:
  assumes "findIndex p xs \<noteq> -1"
  obtains k where "k < length xs" "findIndex p xs = int k" "p (xs ! k)" "\<forall>j < k. \<not> p (xs ! j)"
  using findIndexFrom_cases [of 0 p xs] assms by (auto simp: findIndex_def)

lemma seat_nat: "k < length ps \<Longrightarrow> seat ps (int k) = ps ! k"
  by (cases "ps ! k") (simp_all add: seat_def nth_js_def)

lemma updateSeat_nat:
  "k < length ps \<Longrightarrow> ps ! k = Some pl \<Longrightarrow> updateSeat ps (int k) f = ps[k := Some (f pl)]"
  by (simp add: updateSeat_def seat_nat)

lemma map_of_update_same: "map_of (AList.update k v al) k = Some v"
  by (simp add: update_conv')

lemma mapiFrom_update:
  "k < length xs \<Longrightarrow> mapiFrom f i (xs[k := v]) = (mapiFrom f i xs)[k := f (i + k) v]"
proof (induction xs arbitrary: i k)
  case Nil
  then show ?case by simp
next
  case (Cons x xs)
  then show ?case by (cases k) simp_all
qed

lemma mapi_update: "k < length xs \<Longrightarrow> mapi f (xs[k := v]) = (mapi f xs)[k := f k v]"
  by (simp add: mapi_def mapiFrom_update)

lemma map_update_same: "k < length xs \<Longrightarrow> f v = f (xs ! k) \<Longrightarrow> map f (xs[k := v]) = map f xs"
  by (simp add: map_update list_update_same_conv)

text \<open>Claim C9. For every room of the registry that holds a disconnected seat with the joining
  player's name: a join flagged as reconnection succeeds at the first such seat \<open>k\<close> and is
  reported as a reconnection. In the room it changes only that seat's \<open>id\<close>, \<open>connected\<close> and
  \<open>lastSeen\<close> and the room's \<open>lastActivity\<close>: the seat's hand, name, team and position, the
  other seats, the phase, the trump, the current trick, the scores and the trick counters are as
  before. The snapshot \<open>getFullGameStateForPlayer\<close> computes for the seat, which is the
  \<open>gameInProgress\<close> notification the handler sends first, reports exactly this state: the old
  phase, trump, hand, trick, scores and counters, the names of all seats, and the legal plays of
  the hand when it is this seat's turn in the playing phase (no legal plays otherwise).\<close>

theorem reconnect_frame:
  assumes room: "map_of (rooms reg) roomId = Some room"
    and held: "\<exists>p \<in> set (players room). disconnectedNamed nm p"
  shows "\<exists>k pl room' snap rest.
     k < length (players room) \<and> players room ! k = Some pl \<and> name pl = nm \<and> \<not> connected pl \<and>
     (\<forall>j < k. \<not> disconnectedNamed nm (players room ! j)) \<and>
     room' = room\<lparr>players := (players room)[k := Some (pl\<lparr>id_p := sid, connected := True, lastSeen := now\<rparr>)],
                  lastActivity := now\<rparr> \<and>
     addPlayerToRoom reg roomId \<lparr>id_d = sid, name_d = nm\<rparr> tm True now =
       (reg\<lparr>rooms := AList.update roomId room' (rooms reg),
             playerSockets := AList.update sid roomId (playerSockets reg)\<rparr>,
        JoinSuccess (int k) True) \<and>
     getFullGameStateForPlayer room' (int k) = Some snap \<and>
     snap =
       \<lparr>gameState_s = gameState room, trump_s = trump room,
        currentPlayerIndex_s = currentPlayerIndex room, position_s = int k,
        hand_s = hand pl,
        isYourTurn = (currentPlayerIndex room = int k \<and> gameState room = Playing),
        playableCards =
          (if currentPlayerIndex room = int k \<and> gameState room = Playing
           then getPlayableCards (hand pl) (currentTrick room) (trump room) else []),
        currentTrick_s = currentTrick room, scores_s = scores room,
        tricksWon_s = tricksWon room,
        playerNames = map (map_option name) (players room),
        players_s = (mapi (\<lambda>index p. map_option (\<lambda>pl. \<lparr>name_i = name pl, team_i = team pl,
                         position_i = index, connected_i = connected pl\<rparr>) p) (players room))
             [k := Some \<lparr>name_i = name pl, team_i = team pl, position_i = k, connected_i = True\<rparr>]\<rparr> \<and>
     snd (joinRoom reg sid roomId nm tm True now rnd) = GameInProgress snap # rest"
proof -
  from held have "findIndex (disconnectedNamed nm) (players room) \<noteq> -1"
    by (simp add: findIndex_none)
  then obtain k where k: "k < length (players room)"
      "findIndex (disconnectedNamed nm) (players room) = int k"
      "disconnectedNamed nm (players room ! k)"
      "\<forall>j < k. \<not> disconnectedNamed nm (players room ! j)"
    by (rule findIndex_some)
  from k(3) obtain pl where pl: "players room ! k = Some pl" "name pl = nm" "\<not> connected pl"
    by (auto simp: disconnectedNamed_def split: option.splits)
  define pl' where "pl' = pl\<lparr>id_p := sid, connected := True, lastSeen := now\<rparr>"
  define room' where "room' = room\<lparr>players := (players room)[k := Some pl'], lastActivity := now\<rparr>"
  have seated: "seatPlayer room \<lparr>id_d = sid, name_d = nm\<rparr> tm True now = (room', JoinSuccess (int k) True)"
    using k(1,2) pl(1) by (simp add: seatPlayer_def Let_def updateSeat_nat room'_def pl'_def)
  have added: "addPlayerToRoom reg roomId \<lparr>id_d = sid, name_d = nm\<rparr> tm True now =
       (reg\<lparr>rooms := AList.update roomId room' (rooms reg),
             playerSockets := AList.update sid roomId (playerSockets reg)\<rparr>,
        JoinSuccess (int k) True)"
    by (simp add: addPlayerToRoom_def room seated)
  have seat': "seat (players room') (int k) = Some pl'"
    using k(1) by (simp add: seat_nat room'_def)
  have names: "map (map_option name) (players room') = map (map_option name) (players room)"
    using k(1) pl(1) by (simp add: room'_def pl'_def map_update_same)
  have snap: "getFullGameStateForPlayer room' (int k) =
       Some \<lparr>gameState_s = gameState room, trump_s = trump room,
             currentPlayerIndex_s = currentPlayerIndex room, position_s = int k,
             hand_s = hand pl,
             isYourTurn = (currentPlayerIndex room = int k \<and> gameState room = Playing),
             playableCards =
               (if currentPlayerIndex room = int k \<and> gameState room = Playing
                then getPlayableCards (hand pl) (currentTrick room) (trump room) else []),
             currentTrick_s = currentTrick room, scores_s = scores room,
             tricksWon_s = tricksWon room,
             playerNames = map (map_option name) (players room),
             players_s = (mapi (\<lambda>index p. map_option (\<lambda>pl. \<lparr>name_i = name pl, team_i = team pl,
                              position_i = index, connected_i = connected pl\<rparr>) p) (players room))
                  [k := Some \<lparr>name_i = name pl, team_i = team pl, position_i = k, connected_i = True\<rparr>]\<rparr>"
    unfolding getFullGameStateForPlayer_def seat' names
    using k(1) by (simp add: room'_def pl'_def mapi_update)
  have sent: "\<exists>rest. snd (joinRoom reg sid roomId nm tm True now rnd) =
        GameInProgress (the (getFullGameStateForPlayer room' (int k))) # rest"
    by (simp add: joinRoom_def added map_of_update_same snap split_beta)
  then obtain rest where rest: "snd (joinRoom reg sid roomId nm tm True now rnd) =
        GameInProgress (the (getFullGameStateForPlayer room' (int k))) # rest" ..
  show ?thesis
    apply (rule exI [of _ k], rule exI [of _ pl], rule exI [of _ room'])
    apply (rule exI [of _ "the (getFullGameStateForPlayer room' (int k))"], rule exI [of _ rest])
    using k(1,4) pl added snap rest unfolding room'_def pl'_def by simp
qed

theorem reconnect_frame_witness:
  "map_of (rooms ex_registry) ''r'' = Some ex_room \<and>
   (\<exists>p \<in> set (players ex_room). disconnectedNamed ''bob'' p) \<and>
   snd (addPlayerToRoom ex_registry ''r'' \<lparr>id_d = ''s9'', name_d = ''bob''\<rparr> TeamA True 7) =
     JoinSuccess 1 True"
  using reconnect_frame [where reg = ex_registry and roomId = "''r''" and room = ex_room
          and nm = "''bob''" and sid = "''s9''" and now = 7 and tm = TeamA]
  by (simp add: ex_defs disconnectedNamed_def addPlayerToRoom_def seatPlayer_def findIndex_def
        updateSeat_def seat_def nth_js_def)

section \<open>Seating\<close>

lemma seating_order_set: "set (TEAM_POSITIONS tm @ TEAM_POSITIONS (otherTeam tm)) = {0, 1, 2, 3}"
  by (cases tm) (auto simp: otherTeam_def)

lemma findPositionForTeam_first_free:
  "findPositionForTeam room tm =
     (case filter (seatFree room) (TEAM_POSITIONS tm @ TEAM_POSITIONS (otherTeam tm)) of
        [] \<Rightarrow> -1 | pos # _ \<Rightarrow> pos)"
proof (cases "filter (seatFree room) (TEAM_POSITIONS tm)")
  case Nil
  then show ?thesis
    by (cases "filter (seatFree room) (TEAM_POSITIONS (otherTeam tm))")
       (simp_all add: findPositionForTeam_def Let_def otherTeam_def)
next
  case (Cons a as)
  then show ?thesis
    by (simp add: findPositionForTeam_def Let_def)
qed

lemma name_taken_conv:
  "list_ex (\<lambda>p. case p of None \<Rightarrow> False | Some pl \<Rightarrow> name pl = nm) (filter isConnected ps) =
     (\<exists>p \<in> set ps. connectedNamed nm p)"
  by (auto simp: list_ex_iff connectedNamed_def isConnected_def split: option.splits)

text \<open>Claim C10. For every join that is not flagged as a reconnection, to a room that exists:
  when none of the four seats is free the join is rejected with the full-room error, and when a
  seat is free but a connected seat holds the chosen name it is rejected as a duplicate; in
  both cases the room changes only in \<open>lastActivity\<close>, so no seat is changed. Otherwise (a seat
  is free and no connected seat holds the name, whatever the disconnected seats are called) the
  join succeeds, and the new player occupies the first free seat in the order: the two
  positions of the preferred team, then the two positions of the other team.\<close>

theorem join_seating:
  assumes room: "map_of (rooms reg) roomId = Some room"
  shows
   "((\<forall>pos \<in> {0, 1, 2, 3}. \<not> seatFree room pos) \<longrightarrow>
       addPlayerToRoom reg roomId \<lparr>id_d = sid, name_d = nm\<rparr> tm False now =
         (reg\<lparr>rooms := AList.update roomId (room\<lparr>lastActivity := now\<rparr>) (rooms reg)\<rparr>,
          JoinFailure RoomFull))
    \<and> ((\<exists>pos \<in> {0, 1, 2, 3}. seatFree room pos) \<and> (\<exists>p \<in> set (players room). connectedNamed nm p) \<longrightarrow>
       addPlayerToRoom reg roomId \<lparr>id_d = sid, name_d = nm\<rparr> tm False now =
         (reg\<lparr>rooms := AList.update roomId (room\<lparr>lastActivity := now\<rparr>) (rooms reg)\<rparr>,
          JoinFailure NameTaken))
    \<and> ((\<exists>pos \<in> {0, 1, 2, 3}. seatFree room pos) \<and> \<not> (\<exists>p \<in> set (players room). connectedNamed nm p) \<longrightarrow>
       (\<exists>pos. pos = hd (filter (seatFree room) (TEAM_POSITIONS tm @ TEAM_POSITIONS (otherTeam tm))) \<and>
          pos \<in> {0, 1, 2, 3} \<and> seatFree room pos \<and>
          addPlayerToRoom reg roomId \<lparr>id_d = sid, name_d = nm\<rparr> tm False now =
            (reg\<lparr>rooms :=
                   AList.update roomId
                     (room\<lparr>lastActivity := now,
                           players :=
                             set_js (players room) pos
                               (Some \<lparr>id_p = sid, name = nm, team = getTeamForPosition pos, hand = [],
                                      connected = True, position = pos, lastSeen = now\<rparr>)\<rparr>)
                     (rooms reg),
                  playerSockets := AList.update sid roomId (playerSockets reg)\<rparr>,
             JoinSuccess pos False)))"
proof -
  let ?order = "TEAM_POSITIONS tm @ TEAM_POSITIONS (otherTeam tm)"
  let ?free = "filter (seatFree room) ?order"
  let ?room = "room\<lparr>lastActivity := now\<rparr>"
  have free_room: "seatFree ?room = seatFree room"
    by (rule ext) (simp add: seatFree_def)
  have pos_eq: "findPositionForTeam ?room tm = (case ?free of [] \<Rightarrow> -1 | pos # _ \<Rightarrow> pos)"
    by (simp add: findPositionForTeam_first_free free_room)
  have full: "?free = [] \<longleftrightarrow> (\<forall>pos \<in> {0, 1, 2, 3}. \<not> seatFree room pos)"
    unfolding filter_empty_conv seating_order_set ..
  have taken: "list_ex (\<lambda>p. case p of None \<Rightarrow> False | Some pl \<Rightarrow> name pl = nm)
                 (filter isConnected (players ?room)) = (\<exists>p \<in> set (players room). connectedNamed nm p)"
    by (simp add: name_taken_conv)
  have c1: "addPlayerToRoom reg roomId \<lparr>id_d = sid, name_d = nm\<rparr> tm False now =
         (reg\<lparr>rooms := AList.update roomId ?room (rooms reg)\<rparr>, JoinFailure RoomFull)"
    if "\<forall>pos \<in> {0, 1, 2, 3}. \<not> seatFree room pos"
  proof -
    from that full have "?free = []" by simp
    then have "findPositionForTeam ?room tm = -1" by (simp add: pos_eq)
    then show ?thesis
      by (simp add: addPlayerToRoom_def room seatPlayer_def normalJoin_def Let_def)
  qed
  have first: "\<exists>pos ps. ?free = pos # ps \<and> pos \<in> {0, 1, 2, 3} \<and> seatFree room pos"
    if "\<exists>pos \<in> {0, 1, 2, 3}. seatFree room pos"
  proof -
    from that full have "?free \<noteq> []" by blast
    then obtain pos ps where eq: "?free = pos # ps" by (cases ?free) auto
    then have "pos \<in> set ?free" by simp
    then have "pos \<in> set ?order" "seatFree room pos" by auto
    with eq show ?thesis unfolding seating_order_set by blast
  qed
  have c2: "addPlayerToRoom reg roomId \<lparr>id_d = sid, name_d = nm\<rparr> tm False now =
         (reg\<lparr>rooms := AList.update roomId ?room (rooms reg)\<rparr>, JoinFailure NameTaken)"
    if "\<exists>pos \<in> {0, 1, 2, 3}. seatFree room pos" "\<exists>p \<in> set (players room). connectedNamed nm p"
  proof -
    from first [OF that(1)] obtain pos ps where p: "?free = pos # ps" "pos \<in> {0, 1, 2, 3}" by blast
    then have "findPositionForTeam ?room tm = pos" "pos \<noteq> -1" by (auto simp: pos_eq)
    then show ?thesis
      using that(2) taken
      by (simp add: addPlayerToRoom_def room seatPlayer_def normalJoin_def Let_def)
  qed
  have c3: "\<exists>pos. pos = hd ?free \<and> pos \<in> {0, 1, 2, 3} \<and> seatFree room pos \<and>
          addPlayerToRoom reg roomId \<lparr>id_d = sid, name_d = nm\<rparr> tm False now =
            (reg\<lparr>rooms :=
                   AList.update roomId
                     (room\<lparr>lastActivity := now,
                           players :=
                             set_js (players room) pos
                               (Some \<lparr>id_p = sid, name = nm, team = getTeamForPosition pos, hand = [],
                                      connected = True, position = pos, lastSeen = now\<rparr>)\<rparr>)
                     (rooms reg),
                  playerSockets := AList.update sid roomId (playerSockets reg)\<rparr>,
             JoinSuccess pos False)"
    if "\<exists>pos \<in> {0, 1, 2, 3}. seatFree room pos" "\<not> (\<exists>p \<in> set (players room). connectedNamed nm p)"
  proof -
    from first [OF that(1)] obtain pos ps where
      p: "?free = pos # ps" "pos \<in> {0, 1, 2, 3}" "seatFree room pos" by blast
    then have f: "findPositionForTeam ?room tm = pos" "pos \<noteq> -1" by (auto simp: pos_eq)
    have "addPlayerToRoom reg roomId \<lparr>id_d = sid, name_d = nm\<rparr> tm False now =
            (reg\<lparr>rooms :=
                   AList.update roomId
                     (room\<lparr>lastActivity := now,
                           players :=
                             set_js (players room) pos
                               (Some \<lparr>id_p = sid, name = nm, team = getTeamForPosition pos, hand = [],
                                      connected = True, position = pos, lastSeen = now\<rparr>)\<rparr>)
                     (rooms reg),
                  playerSockets := AList.update sid roomId (playerSockets reg)\<rparr>,
             JoinSuccess pos False)"
      using that(2) taken f
      by (simp add: addPlayerToRoom_def room seatPlayer_def normalJoin_def Let_def)
    with p show ?thesis by simp
  qed
  from c1 c2 c3 show ?thesis by blast
qed

theorem join_seating_witness:
  "map_of (rooms ex_registry) ''r'' = Some ex_room \<and>
   \<not> seatFree ex_room 0 \<and> \<not> seatFree ex_room 1 \<and> \<not> seatFree ex_room 2 \<and> \<not> seatFree ex_room 3 \<and>
   snd (addPlayerToRoom ex_registry ''r'' \<lparr>id_d = ''s9'', name_d = ''eve''\<rparr> TeamA False 7) =
     JoinFailure RoomFull \<and>
   map_of (rooms ex_registry) ''l'' = Some ex_lobby \<and>
   (\<exists>pos \<in> {0, 1, 2, 3}. seatFree ex_lobby pos) \<and>
   (\<exists>p \<in> set (players ex_lobby). connectedNamed ''ann'' p) \<and>
   snd (addPlayerToRoom ex_registry ''l'' \<lparr>id_d = ''s9'', name_d = ''ann''\<rparr> TeamA False 7) =
     JoinFailure NameTaken \<and>
   \<not> (\<exists>p \<in> set (players ex_lobby). connectedNamed ''bob'' p) \<and>
   snd (addPlayerToRoom ex_registry ''l'' \<lparr>id_d = ''s9'', name_d = ''bob''\<rparr> TeamB False 7) =
     JoinSuccess 3 False \<and>
   snd (addPlayerToRoom ex_registry ''l'' \<lparr>id_d = ''s9'', name_d = ''bob''\<rparr> TeamA False 7) =
     JoinSuccess 2 False"
  using join_seating [where reg = ex_registry and roomId = "''r''" and room = ex_room
          and sid = "''s9''" and nm = "''eve''" and tm = TeamA and now = 7]
        join_seating [where reg = ex_registry and roomId = "''l''" and room = ex_lobby
          and sid = "''s9''" and nm = "''ann''" and tm = TeamA and now = 7]
        join_seating [where reg = ex_registry and roomId = "''l''" and room = ex_lobby
          and sid = "''s9''" and nm = "''bob''" and tm = TeamB and now = 7]
        join_seating [where reg = ex_registry and roomId = "''l''" and room = ex_lobby
          and sid = "''s9''" and nm = "''bob''" and tm = TeamA and now = 7]
  by (simp add: ex_defs connectedNamed_def seatFree_def seat_def nth_js_def otherTeam_def)

section \<open>The two-phase deal\<close>

lemma shuffleLoop_length: "length (shuffleLoop rnd k xs) = length xs"
  by (induction k arbitrary: xs) (simp_all add: Let_def)

lemma shuffleLoop_mset: "k < length xs \<Longrightarrow> mset (shuffleLoop rnd k xs) = mset xs"
proof (induction k arbitrary: xs)
  case 0
  then show ?case by simp
next
  case (Suc k)
  let ?i = "Suc k" and ?j = "rnd (Suc k) mod (Suc k + 1)"
  have j: "?j < length xs"
  proof -
    have "?j < Suc k + 1" by (rule mod_less_divisor) simp
    with Suc.prems show ?thesis by linarith
  qed
  have "mset (xs[?i := xs ! ?j, ?j := xs ! ?i]) = mset xs"
    using Suc.prems j by (simp add: mset_swap)
  moreover have "k < length (xs[?i := xs ! ?j, ?j := xs ! ?i])"
    using Suc.prems by simp
  ultimately show ?case
    using Suc.IH [of "xs[?i := xs ! ?j, ?j := xs ! ?i]"] by (simp add: Let_def)
qed

lemma shuffleDeck_length: "length (shuffleDeck rnd xs) = length xs"
  by (simp add: shuffleDeck_def shuffleLoop_length)

lemma shuffleDeck_mset: "mset (shuffleDeck rnd xs) = mset xs"
proof (cases xs)
  case Nil
  then show ?thesis by (simp add: shuffleDeck_def)
next
  case (Cons x ys)
  then show ?thesis by (simp add: shuffleDeck_def shuffleLoop_mset)
qed

lemma createDeck_length: "length createDeck = 32"
  by (simp add: createDeck_def suits_def ranks_def)

lemma createDeck_distinct: "distinct createDeck"
  by (simp add: createDeck_def suits_def ranks_def)

lemma take8: "take 8 xs = take 4 xs @ take 4 (drop 4 xs)"
  using take_add [of 4 4 xs] by simp

lemma split32:
  assumes "length d = 32"
  shows "mset d = mset (take 4 d) + mset (take 4 (drop 4 d)) + mset (take 4 (drop 8 d)) +
     mset (take 4 (drop 12 d)) + mset (take 4 (drop 16 d)) + mset (take 4 (drop 20 d)) +
     mset (take 4 (drop 24 d)) + mset (take 4 (drop 28 d))"
proof -
  have step: "mset (drop n d) = mset (take 4 (drop n d)) + mset (drop (n + 4) d)" for n
  proof -
    have "mset (drop n d) = mset (take 4 (drop n d) @ drop 4 (drop n d))"
      by (simp only: append_take_drop_id)
    then show ?thesis by (simp add: add.commute)
  qed
  have "mset d = mset (drop 0 d)" by simp
  also have "\<dots> = mset (take 4 d) + mset (drop 4 d)" using step [of 0] by simp
  also have "mset (drop 4 d) = mset (take 4 (drop 4 d)) + mset (drop 8 d)" using step [of 4] by simp
  also have "mset (drop 8 d) = mset (take 4 (drop 8 d)) + mset (drop 12 d)" using step [of 8] by simp
  also have "mset (drop 12 d) = mset (take 4 (drop 12 d)) + mset (drop 16 d)" using step [of 12] by simp
  also have "mset (drop 16 d) = mset (take 4 (drop 16 d)) + mset (drop 20 d)" using step [of 16] by simp
  also have "mset (drop 20 d) = mset (take 4 (drop 20 d)) + mset (drop 24 d)" using step [of 20] by simp
  also have "mset (drop 24 d) = mset (take 4 (drop 24 d)) + mset (drop 28 d)" using step [of 24] by simp
  also have "mset (drop 28 d) = mset (take 4 (drop 28 d))" using assms by simp
  finally show ?thesis by (simp add: ac_simps)
qed


lemma mapi4: "mapi f [a, b, c, d] = [f 0 a, f 1 b, f 2 c, f 3 d]"
  by (simp add: mapi_def numeral_2_eq_2 numeral_3_eq_3)

lemma seat4:
  "seat [Some p0, Some p1, Some p2, Some p3] 0 = Some p0"
  "seat [Some p0, Some p1, Some p2, Some p3] 1 = Some p1"
  "seat [Some p0, Some p1, Some p2, Some p3] 2 = Some p2"
  "seat [Some p0, Some p1, Some p2, Some p3] 3 = Some p3"
  by (simp_all add: seat_def nth_js_def)

lemma dealCards4:
  assumes seats: "players room = [Some p0, Some p1, Some p2, Some p3]"
    and cur: "currentPlayerIndex room = int c" "c < 4"
  shows "dealCardsForTrumpSelection rnd room =
     room\<lparr>deck := drop 4 (shuffleDeck rnd createDeck),
          players := map (\<lambda>(i, pl). Some (pl\<lparr>hand := (if i = c then map Some (take 4 (shuffleDeck rnd createDeck)) else [])\<rparr>))
                       [(0, p0), (1, p1), (2, p2), (3, p3)]\<rparr>"
proof -
  from cur(2) consider "c = 0" | "c = 1" | "c = 2" | "c = 3" by linarith
  then show ?thesis
    by cases (simp_all add: dealCardsForTrumpSelection_def seats cur(1) seat4 mapi4 Let_def)
qed

text \<open>Claim C7. For every room with four seated players and every random source: the shuffled
  deck is a permutation of the 32 distinct cards of \<open>createDeck\<close>. After
  \<open>dealCardsForTrumpSelection\<close> the seat at \<open>currentPlayerIndex\<close> (the trump selector's seat
  whenever a deal starts) holds exactly the first 4 cards of the shuffled deck, every other
  seat holds 0 cards, and the 28 other cards stay in the deck. After the trump is selected and
  \<open>dealRemainingCards\<close> has run, every seat holds exactly 8 cards, none of them null; the hand
  of the trump selector is its 4 original cards followed by 4 more from the deck; the four
  hands together are a permutation of the whole deck; and the deck is empty.\<close>

theorem two_phase_deal:
  assumes seats: "players room = [Some p0, Some p1, Some p2, Some p3]"
    and cur: "currentPlayerIndex room = int c" "c < 4"
  shows "let d = shuffleDeck rnd createDeck;
             r1 = dealCardsForTrumpSelection rnd room;
             r2 = dealRemainingCards (r1\<lparr>trump := t, trumpSelector := int c, gameState := Playing,
                                         lastActivity := now\<rparr>)
         in length createDeck = 32 \<and> distinct createDeck \<and> mset d = mset createDeck \<and>
            map (map_option hand) (players r1) = (replicate 4 (Some []))[c := Some (map Some (take 4 d))] \<and>
            deck r1 = drop 4 d \<and> length (deck r1) = 28 \<and>
            (\<exists>hs. map (map_option hand) (players r2) = map Some hs \<and> length hs = 4 \<and>
                  (\<forall>h \<in> set hs. length h = 8 \<and> None \<notin> set h) \<and>
                  take 4 (hs ! c) = map Some (take 4 d) \<and>
                  drop 4 (hs ! c) = map Some (take 4 (drop (8 * c) (deck r1))) \<and>
                  mset (concat hs) = mset (map Some createDeck)) \<and>
            deck r2 = []"
proof -
  define d where "d = shuffleDeck rnd createDeck"
  have len: "length d = 32" by (simp add: d_def shuffleDeck_length createDeck_length)
  have perm: "mset d = mset createDeck" by (simp add: d_def shuffleDeck_mset)
  have r1: "dealCardsForTrumpSelection rnd room =
     room\<lparr>deck := drop 4 d,
          players := map (\<lambda>(i, pl). Some (pl\<lparr>hand := (if i = c then map Some (take 4 d) else [])\<rparr>))
                       [(0, p0), (1, p1), (2, p2), (3, p3)]\<rparr>"
    unfolding d_def using seats cur by (rule dealCards4)
  have hands1: "map (map_option hand) (players (dealCardsForTrumpSelection rnd room)) =
      (replicate 4 (Some []))[c := Some (map Some (take 4 d))]"
  proof -
    from cur(2) consider "c = 0" | "c = 1" | "c = 2" | "c = 3" by linarith
    then show ?thesis
      by cases (simp_all add: r1 numeral_eq_Suc)
  qed
  have whole: "mset (map Some d) = mset (map Some createDeck)"
    using perm by (metis mset_map)
  have parts: "mset (map Some d) =
     mset (map Some (take 4 d)) + mset (map Some (take 4 (drop 4 d))) + mset (map Some (take 4 (drop 8 d))) +
     mset (map Some (take 4 (drop 12 d))) + mset (map Some (take 4 (drop 16 d))) + mset (map Some (take 4 (drop 20 d))) +
     mset (map Some (take 4 (drop 24 d))) + mset (map Some (take 4 (drop 28 d)))"
    using split32 [OF len] by (metis (no_types, lifting) image_mset_union mset_map)
  let ?r2 = "dealRemainingCards ((dealCardsForTrumpSelection rnd room)\<lparr>trump := t, trumpSelector := int c,
      gameState := Playing, lastActivity := now\<rparr>)"
  have r2: "(\<exists>hs. map (map_option hand) (players ?r2) = map Some hs \<and> length hs = 4 \<and>
                  (\<forall>h \<in> set hs. length h = 8 \<and> None \<notin> set h) \<and>
                  take 4 (hs ! c) = map Some (take 4 d) \<and>
                  drop 4 (hs ! c) = map Some (take 4 (drop (8 * c) (drop 4 d))) \<and>
                  mset (concat hs) = mset (map Some d)) \<and>
            deck ?r2 = []"
  proof -
    from cur(2) consider (0) "c = 0" | (1) "c = 1" | (2) "c = 2" | (3) "c = 3" by linarith
    then show ?thesis
    proof cases
      case 0
      let ?hs = "[map Some (take 4 d) @ map Some (take 4 (drop 4 d)), map Some (take 8 (drop 8 d)),
                  map Some (take 8 (drop 16 d)), map Some (take 8 (drop 24 d))]"
      have "map (map_option hand) (players ?r2) = map Some ?hs" "deck ?r2 = []"
        using len by (simp_all add: r1 0 cur(1) dealRemainingCards_def)
      moreover have "mset (concat ?hs) = mset (map Some d)"
        unfolding parts by (simp add: take8 ac_simps)
      moreover have "\<forall>h \<in> set ?hs. length h = 8 \<and> None \<notin> set h"
        using len by auto
      ultimately show ?thesis
        using len by (intro conjI exI [of _ ?hs]) (simp_all add: 0)
    next
      case 1
      let ?hs = "[map Some (take 8 (drop 4 d)), map Some (take 4 d) @ map Some (take 4 (drop 12 d)),
                  map Some (take 8 (drop 16 d)), map Some (take 8 (drop 24 d))]"
      have "map (map_option hand) (players ?r2) = map Some ?hs" "deck ?r2 = []"
        using len by (simp_all add: r1 1 cur(1) dealRemainingCards_def)
      moreover have "mset (concat ?hs) = mset (map Some d)"
        unfolding parts by (simp add: take8 ac_simps)
      moreover have "\<forall>h \<in> set ?hs. length h = 8 \<and> None \<notin> set h"
        using len by auto
      ultimately show ?thesis
        using len by (intro conjI exI [of _ ?hs]) (simp_all add: 1)
    next
      case 2
      let ?hs = "[map Some (take 8 (drop 4 d)), map Some (take 8 (drop 12 d)),
                  map Some (take 4 d) @ map Some (take 4 (drop 20 d)), map Some (take 8 (drop 24 d))]"
      have "map (map_option hand) (players ?r2) = map Some ?hs" "deck ?r2 = []"
        using len by (simp_all add: r1 2 cur(1) dealRemainingCards_def)
      moreover have "mset (concat ?hs) = mset (map Some d)"
        unfolding parts by (simp add: take8 ac_simps)
      moreover have "\<forall>h \<in> set ?hs. length h = 8 \<and> None \<notin> set h"
        using len by auto
      ultimately show ?thesis
        using len by (intro conjI exI [of _ ?hs]) (simp_all add: 2)
    next
      case 3
      let ?hs = "[map Some (take 8 (drop 4 d)), map Some (take 8 (drop 12 d)),
                  map Some (take 8 (drop 20 d)), map Some (take 4 d) @ map Some (take 4 (drop 28 d))]"
      have "map (map_option hand) (players ?r2) = map Some ?hs" "deck ?r2 = []"
        using len by (simp_all add: r1 3 cur(1) dealRemainingCards_def)
      moreover have "mset (concat ?hs) = mset (map Some d)"
        unfolding parts by (simp add: take8 ac_simps)
      moreover have "\<forall>h \<in> set ?hs. length h = 8 \<and> None \<notin> set h"
        using len by auto
      ultimately show ?thesis
        using len by (intro conjI exI [of _ ?hs]) (simp_all add: 3)
    qed
  qed
  have deck1: "deck (dealCardsForTrumpSelection rnd room) = drop 4 d" by (simp add: r1)
  show ?thesis
    unfolding Let_def d_def [symmetric]
    using createDeck_length createDeck_distinct perm hands1 r2 len
    by (simp add: deck1 whole)
qed

lemma ex_deal_first:
  "map (map_option (\<lambda>p. length (hand p))) (players (dealCardsForTrumpSelection ex_rnd ex_seated)) =
     [Some 0, Some 4, Some 0, Some 0]"
  by code_simp

lemma ex_deal_second:
  "map (map_option (\<lambda>p. length (hand p)))
     (players (dealRemainingCards ((dealCardsForTrumpSelection ex_rnd ex_seated)
          \<lparr>trump := Some (SuitName Clubs), trumpSelector := int 1, gameState := Playing, lastActivity := 5\<rparr>))) =
     [Some 8, Some 8, Some 8, Some 8]"
  by code_simp

theorem two_phase_deal_witness:
  "players ex_seated =
     [Some (ex_player ''s0'' ''ann'' 0 True []), Some (ex_player ''s1'' ''bob'' 1 True []),
      Some (ex_player ''s2'' ''cat'' 2 True []), Some (ex_player ''s3'' ''dan'' 3 True [])] \<and>
   currentPlayerIndex ex_seated = int 1 \<and> (1::nat) < 4 \<and>
   map (map_option (\<lambda>p. length (hand p))) (players (dealCardsForTrumpSelection ex_rnd ex_seated)) =
     [Some 0, Some 4, Some 0, Some 0] \<and>
   length (deck (dealCardsForTrumpSelection ex_rnd ex_seated)) = 28 \<and>
   map (map_option (\<lambda>p. length (hand p)))
     (players (dealRemainingCards ((dealCardsForTrumpSelection ex_rnd ex_seated)
          \<lparr>trump := Some (SuitName Clubs), trumpSelector := int 1, gameState := Playing, lastActivity := 5\<rparr>))) =
     [Some 8, Some 8, Some 8, Some 8] \<and>
   deck (dealRemainingCards ((dealCardsForTrumpSelection ex_rnd ex_seated)
          \<lparr>trump := Some (SuitName Clubs), trumpSelector := int 1, gameState := Playing, lastActivity := 5\<rparr>)) = []"
proof -
  have seats: "players ex_seated =
     [Some (ex_player ''s0'' ''ann'' 0 True []), Some (ex_player ''s1'' ''bob'' 1 True []),
      Some (ex_player ''s2'' ''cat'' 2 True []), Some (ex_player ''s3'' ''dan'' 3 True [])]"
    by (simp add: ex_seated_def)
  have cur: "currentPlayerIndex ex_seated = int 1" by (simp add: ex_seated_def)
  have c: "(1::nat) < 4" by simp
  note deal = two_phase_deal [OF seats cur c, where rnd = ex_rnd and t = "Some (SuitName Clubs)" and now = 5,
      unfolded Let_def]
  from deal have l28: "length (deck (dealCardsForTrumpSelection ex_rnd ex_seated)) = 28"
    by blast
  from deal have emp: "deck (dealRemainingCards ((dealCardsForTrumpSelection ex_rnd ex_seated)
          \<lparr>trump := Some (SuitName Clubs), trumpSelector := int 1, gameState := Playing, lastActivity := 5\<rparr>)) = []"
    by blast
  show ?thesis
    using seats cur c ex_deal_first ex_deal_second l28 emp by blast
qed

section \<open>Invariants of the reachable rooms\<close>

subsection \<open>Counting connected seats\<close>

lemma count_map:
  "map isConnected ps' = map isConnected ps \<Longrightarrow>
     length (filter isConnected ps') = length (filter isConnected ps)"
proof (induction ps arbitrary: ps')
  case Nil
  then show ?case by simp
next
  case (Cons p ps)
  then obtain q qs where ps': "ps' = q # qs" by (cases ps') auto
  with Cons.prems have "isConnected q = isConnected p" "map isConnected qs = map isConnected ps"
    by simp_all
  with Cons.IH [of qs] show ?case by (simp add: ps')
qed

lemma count_update_up:
  "isConnected v \<Longrightarrow> length (filter isConnected ps) \<le> length (filter isConnected (ps[k := v]))"
proof (induction ps arbitrary: k)
  case Nil
  then show ?case by simp
next
  case (Cons p ps)
  then show ?case by (cases k) (auto intro: le_SucI)
qed

lemma count_update_down:
  "length (filter isConnected ps) \<le> Suc (length (filter isConnected (ps[k := v])))"
proof (induction ps arbitrary: k)
  case Nil
  then show ?case by simp
next
  case (Cons p ps)
  then show ?case by (cases k) (auto intro: le_SucI)
qed

lemma count_evict:
  "filter isConnected (map (\<lambda>p. if inactive now p then None else p) ps) = filter isConnected ps"
  by (induction ps) (auto simp: inactive_def isConnected_def split: option.splits)

lemma mapiFrom_length [simp]: "length (mapiFrom f i xs) = length xs"
  by (induction xs arbitrary: i) simp_all

lemma mapi_length [simp]: "length (mapi f xs) = length xs"
  by (simp add: mapi_def)

lemma mapiFrom_connected:
  "(\<And>i p. isConnected (f i p) = isConnected p) \<Longrightarrow>
     map isConnected (mapiFrom f i ps) = map isConnected ps"
  by (induction ps arbitrary: i) simp_all

lemma dealRemainingFrom_connected:
  "dealRemainingFrom cur i ps d = (ps', d') \<Longrightarrow>
     map isConnected ps' = map isConnected ps \<and> length ps' = length ps"
proof (induction cur i ps d arbitrary: ps' d' rule: dealRemainingFrom.induct)
  case (1 cur index d)
  then show ?case by simp
next
  case (2 cur index ps d)
  obtain qs e where rec: "dealRemainingFrom cur (Suc index) ps d = (qs, e)"
    by (cases "dealRemainingFrom cur (Suc index) ps d")
  from "2.IH" [OF rec] "2.prems" show ?case
    by (auto simp: rec isConnected_def)
next
  case (3 cur index pl ps d)
  show ?case
  proof (cases "int index = cur")
    case True
    obtain qs e where rec: "dealRemainingFrom cur (Suc index) ps (drop 4 d) = (qs, e)"
      by (cases "dealRemainingFrom cur (Suc index) ps (drop 4 d)")
    from "3.IH"(1) [OF True refl rec] "3.prems" True show ?thesis
      by (auto simp: rec isConnected_def Let_def)
  next
    case False
    obtain qs e where rec: "dealRemainingFrom cur (Suc index) ps (drop 8 d) = (qs, e)"
      by (cases "dealRemainingFrom cur (Suc index) ps (drop 8 d)")
    from "3.IH"(2) [OF False rec] "3.prems" False show ?thesis
      by (auto simp: rec isConnected_def)
  qed
qed

subsection \<open>What the dealing functions leave unchanged\<close>

lemma dealCards_frame [simp]:
  "gameState (dealCardsForTrumpSelection rnd r) = gameState r"
  "trump (dealCardsForTrumpSelection rnd r) = trump r"
  "scores (dealCardsForTrumpSelection rnd r) = scores r"
  "tricksWon (dealCardsForTrumpSelection rnd r) = tricksWon r"
  "trumpSelector (dealCardsForTrumpSelection rnd r) = trumpSelector r"
  "currentPlayerIndex (dealCardsForTrumpSelection rnd r) = currentPlayerIndex r"
  "currentTrick (dealCardsForTrumpSelection rnd r) = currentTrick r"
  "length (players (dealCardsForTrumpSelection rnd r)) = length (players r)"
  by (simp_all add: dealCardsForTrumpSelection_def Let_def split: option.splits)

lemma dealCards_count [simp]:
  "connectedCount (dealCardsForTrumpSelection rnd r) = connectedCount r"
proof -
  have "map isConnected (players (dealCardsForTrumpSelection rnd r)) = map isConnected (players r)"
  proof (cases "seat (players r) (currentPlayerIndex r)")
    case None
    then show ?thesis by (simp add: dealCardsForTrumpSelection_def Let_def)
  next
    case (Some ts)
    have "map isConnected (mapiFrom (\<lambda>index p. case p of None \<Rightarrow> None
              | Some pl \<Rightarrow> if int index \<noteq> currentPlayerIndex r then Some (pl\<lparr>hand := []\<rparr>)
                  else Some (pl\<lparr>hand := map Some (take 4 (shuffleDeck rnd createDeck))\<rparr>)) 0 (players r)) =
          map isConnected (players r)"
      by (rule mapiFrom_connected) (simp add: isConnected_def split: option.splits)
    then show ?thesis by (simp add: dealCardsForTrumpSelection_def Let_def Some mapi_def)
  qed
  then show ?thesis unfolding connectedCount_def by (rule count_map)
qed

lemma dealRemaining_frame [simp]:
  "gameState (dealRemainingCards r) = gameState r"
  "trump (dealRemainingCards r) = trump r"
  "scores (dealRemainingCards r) = scores r"
  "tricksWon (dealRemainingCards r) = tricksWon r"
  "trumpSelector (dealRemainingCards r) = trumpSelector r"
  "currentPlayerIndex (dealRemainingCards r) = currentPlayerIndex r"
  "currentTrick (dealRemainingCards r) = currentTrick r"
  by (simp_all add: dealRemainingCards_def split: prod.splits)

lemma dealRemaining_players [simp]:
  "length (players (dealRemainingCards r)) = length (players r)"
  "connectedCount (dealRemainingCards r) = connectedCount r"
proof -
  obtain ps' d' where eq: "dealRemainingFrom (currentPlayerIndex r) 0 (players r) (deck r) = (ps', d')"
    by (cases "dealRemainingFrom (currentPlayerIndex r) 0 (players r) (deck r)")
  from dealRemainingFrom_connected [OF eq]
  have m: "map isConnected ps' = map isConnected (players r)" and l: "length ps' = length (players r)"
    by simp_all
  show "length (players (dealRemainingCards r)) = length (players r)"
    using l by (simp add: dealRemainingCards_def eq)
  show "connectedCount (dealRemainingCards r) = connectedCount r"
    using count_map [OF m] by (simp add: dealRemainingCards_def eq connectedCount_def)
qed

subsection \<open>Seat updates\<close>

lemma updateSeat_length [simp]: "length (updateSeat ps i f) = length ps"
  by (simp add: updateSeat_def split: option.splits)

lemma updateSeat_same_connected:
  assumes "\<And>pl. connected (f pl) = connected pl"
  shows "map isConnected (updateSeat ps i f) = map isConnected ps"
proof (cases "seat ps i")
  case None
  then show ?thesis by (simp add: updateSeat_def)
next
  case (Some pl)
  then have i: "0 \<le> i" "nat i < length ps" "ps ! nat i = Some pl"
    by (auto simp: seat_def nth_js_def split: if_splits option.splits)
  have "map isConnected (ps[nat i := Some (f pl)]) = (map isConnected ps)[nat i := isConnected (ps ! nat i)]"
    using assms [of pl] i by (simp add: map_update isConnected_def)
  then show ?thesis
    using i by (simp add: updateSeat_def Some list_update_same_conv)
qed

lemma updateSeat_count_up:
  assumes "\<And>pl. connected (f pl)"
  shows "length (filter isConnected ps) \<le> length (filter isConnected (updateSeat ps i f))"
proof (cases "seat ps i")
  case None
  then show ?thesis by (simp add: updateSeat_def)
next
  case (Some pl)
  have "isConnected (Some (f pl))" using assms by (simp add: isConnected_def)
  then show ?thesis by (simp add: updateSeat_def Some count_update_up)
qed

lemma updateSeat_count_down:
  "length (filter isConnected ps) \<le> Suc (length (filter isConnected (updateSeat ps i f)))"
  by (simp add: updateSeat_def count_update_down split: option.splits)

lemma count_le_length: "connectedCount r \<le> length (players r)"
  by (simp add: connectedCount_def)

lemma findPosition_range:
  "findPositionForTeam r tm = -1 \<or> findPositionForTeam r tm \<in> {0, 1, 2, 3}"
proof (cases "filter (seatFree r) (TEAM_POSITIONS tm @ TEAM_POSITIONS (otherTeam tm))")
  case Nil
  have "findPositionForTeam r tm = -1"
    by (simp only: findPositionForTeam_first_free Nil list.case)
  then show ?thesis by simp
next
  case (Cons pos ps)
  then have "pos \<in> set (filter (seatFree r) (TEAM_POSITIONS tm @ TEAM_POSITIONS (otherTeam tm)))"
    by simp
  then have "pos \<in> set (TEAM_POSITIONS tm @ TEAM_POSITIONS (otherTeam tm))" by auto
  then have "pos \<in> {0, 1, 2, 3}" unfolding seating_order_set .
  moreover have "findPositionForTeam r tm = pos"
    by (simp only: findPositionForTeam_first_free Cons list.case)
  ultimately show ?thesis by simp
qed

subsection \<open>Joining\<close>

lemma normalJoin_frame:
  assumes "normalJoin r pd tm now = (r', res)"
  shows "gameState r' = gameState r \<and> trump r' = trump r \<and> scores r' = scores r \<and>
         tricksWon r' = tricksWon r \<and> trumpSelector r' = trumpSelector r \<and>
         currentPlayerIndex r' = currentPlayerIndex r \<and> currentTrick r' = currentTrick r \<and>
         (length (players r) = 4 \<longrightarrow> length (players r') = 4 \<and> connectedCount r \<le> connectedCount r')"
proof -
  let ?pos = "findPositionForTeam r tm"
  let ?new = "Some \<lparr>id_p = id_d pd, name = name_d pd, team = getTeamForPosition ?pos, hand = [],
                    connected = True, position = ?pos, lastSeen = now\<rparr>"
  from findPosition_range [of r tm] consider "?pos = -1" | "?pos \<in> {0, 1, 2, 3}" by blast
  then show ?thesis
  proof cases
    case 1
    with assms show ?thesis by (simp add: normalJoin_def)
  next
    case 2
    then have ne: "?pos \<noteq> -1" by auto
    have upd: "set_js (players r) ?pos ?new = (players r)[nat ?pos := ?new]"
      if "length (players r) = 4"
      using 2 that by (auto simp: set_js_def)
    have conn: "isConnected ?new" by (simp add: isConnected_def)
    show ?thesis
      using assms ne upd count_update_up [OF conn, of "players r" "nat ?pos"]
      by (auto simp: normalJoin_def Let_def connectedCount_def split: if_splits)
  qed
qed

lemma seatPlayer_frame:
  assumes "seatPlayer r pd tm rc now = (r', res)"
  shows "gameState r' = gameState r \<and> trump r' = trump r \<and> scores r' = scores r \<and>
         tricksWon r' = tricksWon r \<and> trumpSelector r' = trumpSelector r \<and>
         currentPlayerIndex r' = currentPlayerIndex r \<and> currentTrick r' = currentTrick r \<and>
         (length (players r) = 4 \<longrightarrow> length (players r') = 4 \<and> connectedCount r \<le> connectedCount r')"
proof -
  let ?r = "r\<lparr>lastActivity := now\<rparr>"
  have nj: "gameState r'' = gameState r \<and> trump r'' = trump r \<and> scores r'' = scores r \<and>
         tricksWon r'' = tricksWon r \<and> trumpSelector r'' = trumpSelector r \<and>
         currentPlayerIndex r'' = currentPlayerIndex r \<and> currentTrick r'' = currentTrick r \<and>
         (length (players r) = 4 \<longrightarrow> length (players r'') = 4 \<and> connectedCount r \<le> connectedCount r'')"
    if "normalJoin ?r pd tm now = (r'', res')" for r'' res'
    using normalJoin_frame [OF that] by (simp add: connectedCount_def)
  have up: "length (filter isConnected (players r)) \<le>
      length (filter isConnected (updateSeat (players r) i
         (\<lambda>pl. pl\<lparr>id_p := id_d pd, connected := True, lastSeen := now\<rparr>)))" for i
    by (rule updateSeat_count_up) simp
  show ?thesis
  proof (cases rc)
    case False
    with assms have "normalJoin ?r pd tm now = (r', res)" by (simp add: seatPlayer_def)
    then show ?thesis by (rule nj)
  next
    case True
    show ?thesis
    proof (cases "findIndex (disconnectedNamed (name_d pd)) (players r) \<noteq> -1")
      case found: True
      with assms True up show ?thesis
        by (auto simp: seatPlayer_def Let_def connectedCount_def)
    next
      case nf: False
      show ?thesis
      proof (cases "findIndex (connectedNamed (name_d pd)) (players r) \<noteq> -1")
        case True
        with assms \<open>rc\<close> nf show ?thesis by (auto simp: seatPlayer_def Let_def connectedCount_def)
      next
        case False
        with assms \<open>rc\<close> nf have "normalJoin ?r pd tm now = (r', res)"
          by (simp add: seatPlayer_def Let_def)
        then show ?thesis by (rule nj)
      qed
    qed
  qed
qed

lemma resumeGame_inv:
  assumes "roomInv r"
  shows "roomInv (fst (resumeGame rnd r pos))"
proof (cases "gameState r = Paused \<and> connectedCount r \<ge> 4")
  case False
  with assms show ?thesis by (auto simp: resumeGame_def)
next
  case True
  from assms have len: "length (players r) = 4" by (simp add: roomInv_def)
  with count_le_length [of r] True have four: "connectedCount r = 4" by simp
  have cc: "connectedCount (r\<lparr>gameState := ph\<rparr>) = connectedCount r" for ph
    by (simp add: connectedCount_def)
  show ?thesis
  proof (cases "trump r")
    case None
    with assms True four show ?thesis
      by (auto simp: resumeGame_def roomInv_def cc Let_def split: option.splits)
  next
    case (Some t)
    with assms True four show ?thesis
      by (auto simp: resumeGame_def roomInv_def cc Let_def split: option.splits)
  qed
qed

lemma startGameInRoom_inv:
  assumes "roomInv r" "gameState r = Waiting" "connectedCount r = 4"
  shows "roomInv (fst (startGameInRoom r now rnd))"
proof -
  have cc: "connectedCount (r\<lparr>gameState := TrumpSelection, currentRoundIndex := 0,
                          currentPlayerIndex := 0, trumpSelector := 0,
                          scores := \<lparr>teamA = 0, teamB = 0\<rparr>, tricksWon := [0, 0, 0, 0],
                          lastActivity := now\<rparr>) = connectedCount r"
    by (simp add: connectedCount_def)
  show ?thesis
    using assms by (auto simp: startGameInRoom_def roomInv_def Let_def cc)
qed

lemma seatPlayer_inv:
  assumes "roomInv r" "seatPlayer r pd tm rc now = (r', res)"
  shows "roomInv r' \<and> gameState r' = gameState r"
proof -
  from assms(1) have len: "length (players r) = 4" by (simp add: roomInv_def)
  from seatPlayer_frame [OF assms(2)] len
  have f: "gameState r' = gameState r" "trump r' = trump r" "scores r' = scores r"
    "tricksWon r' = tricksWon r" "trumpSelector r' = trumpSelector r"
    "currentPlayerIndex r' = currentPlayerIndex r" "length (players r') = 4"
    "connectedCount r \<le> connectedCount r'" "currentTrick r' = currentTrick r" by simp_all
  from f(7) count_le_length [of r'] have "connectedCount r' \<le> 4" by simp
  with f(8) have "connectedCount r = 4 \<Longrightarrow> connectedCount r' = 4" by simp
  with assms(1) f show ?thesis by (simp add: roomInv_def)
qed

lemma joinInRoom_inv:
  assumes "roomInv r"
  shows "roomInv (joinInRoom r sid nm tm rc now rnd)"
proof -
  obtain r1 res where sp: "seatPlayer r \<lparr>id_d = sid, name_d = nm\<rparr> tm rc now = (r1, res)"
    by (cases "seatPlayer r \<lparr>id_d = sid, name_d = nm\<rparr> tm rc now")
  from seatPlayer_inv [OF assms sp] have r1: "roomInv r1" by simp
  show ?thesis
  proof (cases res)
    case (JoinFailure e)
    with r1 show ?thesis by (simp add: joinInRoom_def sp)
  next
    case (JoinSuccess pos isRec)
    with r1 resumeGame_inv [OF r1] startGameInRoom_inv [OF r1] show ?thesis
      by (simp add: joinInRoom_def sp)
  qed
qed

subsection \<open>Trump selection, play, disconnection, eviction\<close>

lemma selectTrumpInRoom_inv:
  assumes "roomInv r"
  shows "roomInv (fst (selectTrumpInRoom r sid t now))"
proof (cases "gameState r = TrumpSelection \<and> findIndex (hasId sid) (players r) = currentPlayerIndex r")
  case False
  with assms show ?thesis by (auto simp: selectTrumpInRoom_def Let_def)
next
  case True
  let ?r = "r\<lparr>trump := t, trumpSelector := findIndex (hasId sid) (players r),
               gameState := Playing, lastActivity := now\<rparr>"
  have "connectedCount ?r = connectedCount r" by (simp add: connectedCount_def)
  with assms True have "roomInv (dealRemainingCards ?r)"
    by (simp add: roomInv_def)
  with True show ?thesis
    by (simp add: selectTrumpInRoom_def Let_def split: option.splits)
qed

lemma checkRoundComplete_inv:
  assumes inv: "roomInv r" and ph: "gameState r = Playing"
    and res: "checkRoundComplete r = Some (r', st)"
  shows "roomInv r'"
proof (cases "8 \<le> foldl (+) 0 (tricksWon r)")
  case False
  with res inv show ?thesis by (simp add: checkRoundComplete_def)
next
  case True
  from inv ph have sc: "teamA (scores r) < 10" "teamB (scores r) < 10"
    and len: "length (players r) = 4"
    and cc: "connectedCount r = 4" and ltw: "length (tricksWon r) = 4"
    and tk: "\<forall>t \<in> set (currentTrick r). 0 \<le> playerIndex t \<and> playerIndex t < 4"
    by (simp_all add: roomInv_def)
  have cc': "connectedCount (r\<lparr>scores := s, tricksWon := tw, currentTrick := ct, trump := tp,
      gameState := g, currentPlayerIndex := c, trumpSelector := c'\<rparr>) = connectedCount r"
    for s tw ct tp g c c'
    by (simp add: connectedCount_def)
  from res True len cc ltw sc tk show ?thesis
    by (auto simp: checkRoundComplete_def Let_def roomInv_def cc' connectedCount_def
        split: option.splits if_splits)
qed

lemma playCardInRoom_cases:
  assumes res: "playCardInRoom r sid i now = Some (r', sent)"
  shows "r' = r \<or>
     (gameState r = Playing \<and>
      (\<exists>r1. (\<exists>pi pl c. seat (players r) pi = Some pl \<and> r1 = placeCard r pi pl c i now) \<and>
         (resolveTrick r1 = Some (r', sent) \<or> r' = fst (nextTurn r1))))"
proof (cases "r' = r")
  case True
  then show ?thesis by simp
next
  case False
  let ?pi = "findIndex (hasId sid) (players r)"
  from res False have ph: "gameState r = Playing" and found: "?pi \<noteq> -1"
    and turn: "?pi = currentPlayerIndex r"
    by (auto simp: playCardInRoom_def Let_def split: if_splits)
  from res False ph turn obtain pl c where
    pl: "seat (players r) ?pi = Some pl" and c: "nth_js (hand pl) (int i) = Some (Some c)"
    and valid: "isValidPlay c (hand pl) (currentTrick r) (trump r)"
    by (auto simp: playCardInRoom_def Let_def split: if_splits option.splits list.splits)
  let ?r1 = "placeCard r ?pi pl c i now"
  from ph found turn pl c valid
  have "playCardInRoom r sid i now =
      (if length (currentTrick ?r1) = 4 then resolveTrick ?r1 else Some (nextTurn ?r1))"
    by (simp add: playCardInRoom_def Let_def)
  with res
  have "(if length (currentTrick ?r1) = 4 then resolveTrick ?r1 else Some (nextTurn ?r1)) =
      Some (r', sent)"
    by simp
  then have "resolveTrick ?r1 = Some (r', sent) \<or> r' = fst (nextTurn ?r1)"
    by (auto split: if_splits)
  with ph pl show ?thesis by blast
qed

lemma resolveTrick_cases:
  assumes res: "resolveTrick r1 = Some (r', sent)"
  shows "\<exists>(w :: play) n st.
     checkRoundComplete (r1\<lparr>tricksWon := (tricksWon r1)[nat (playerIndex w) := n + 1],
                            currentTrick := [], currentPlayerIndex := playerIndex w,
                            lastTrickWinner := playerIndex w\<rparr>) = Some (r', st) \<and>
     sent = (if gameComplete st
             then [GameOver (finalWinnerOf (scores r')) (scores r') (roundResult st)]
             else if roundComplete st then [RoundCompleteMsg (roundResult st) (scores r')]
             else [])"
proof -
  from res obtain w where w: "getTrickWinner (currentTrick r1) (trumpSuit (trump r1)) = Some w"
    by (auto simp: resolveTrick_def split: option.splits)
  from res w obtain n where n: "nth_js (tricksWon r1) (playerIndex w) = Some n"
    by (auto simp: resolveTrick_def Let_def split: option.splits)
  let ?r2 = "r1\<lparr>tricksWon := (tricksWon r1)[nat (playerIndex w) := n + 1],
                            currentTrick := [], currentPlayerIndex := playerIndex w,
                            lastTrickWinner := playerIndex w\<rparr>"
  from res w n obtain r3 st where chk: "checkRoundComplete ?r2 = Some (r3, st)"
    by (auto simp: resolveTrick_def Let_def split: option.splits)
  from res w n chk
  have "(if gameComplete st
         then Some (r3, [GameOver (finalWinnerOf (scores r3)) (scores r3) (roundResult st)])
         else if roundComplete st then Some (r3, [RoundCompleteMsg (roundResult st) (scores r3)])
         else Some (r3, [])) = Some (r', sent)"
    by (simp add: resolveTrick_def Let_def)
  then have r3: "r3 = r'"
    and sent: "sent = (if gameComplete st
             then [GameOver (finalWinnerOf (scores r')) (scores r') (roundResult st)]
             else if roundComplete st then [RoundCompleteMsg (roundResult st) (scores r')]
             else [])"
    by (auto split: if_splits)
  from chk r3 have chk': "checkRoundComplete ?r2 = Some (r', st)" by simp
  show ?thesis
    apply (rule exI [of _ w], rule exI [of _ n], rule exI [of _ st])
    apply (rule conjI)
     apply (rule chk')
    apply (rule sent)
    done
qed

lemma placeCard_frame [simp]:
  "gameState (placeCard r pi pl c i now) = gameState r"
  "trump (placeCard r pi pl c i now) = trump r"
  "scores (placeCard r pi pl c i now) = scores r"
  "tricksWon (placeCard r pi pl c i now) = tricksWon r"
  "trumpSelector (placeCard r pi pl c i now) = trumpSelector r"
  "currentPlayerIndex (placeCard r pi pl c i now) = currentPlayerIndex r"
  "length (players (placeCard r pi pl c i now)) = length (players r)"
  by (simp_all add: placeCard_def)

lemma placeCard_count [simp]: "connectedCount (placeCard r pi pl c i now) = connectedCount r"
  unfolding connectedCount_def placeCard_def
  by (simp add: count_map [OF updateSeat_same_connected])

lemma seat_range: "seat ps i = Some pl \<Longrightarrow> 0 \<le> i \<and> i < int (length ps)"
  by (auto simp: seat_def nth_js_def split: if_splits)

lemma placeCard_inv:
  assumes "roomInv r" "seat (players r) pi = Some pl"
  shows "roomInv (placeCard r pi pl c i now)"
proof -
  from assms have "0 \<le> pi \<and> pi < 4" using seat_range [of "players r" pi pl] by (simp add: roomInv_def)
  moreover have "currentTrick (placeCard r pi pl c i now) =
      currentTrick r @ [\<lparr>playerIndex = pi, playerName = name pl, cardOf = c\<rparr>]"
    by (simp add: placeCard_def)
  ultimately show ?thesis using assms(1) by (simp add: roomInv_def)
qed

lemma nextTurn_room:
  "fst (nextTurn r1) = r1\<lparr>currentPlayerIndex := js_rem (currentPlayerIndex r1 + 1) 4\<rparr>"
  by (simp add: nextTurn_def Let_def split: option.splits)

lemma playCardInRoom_inv:
  assumes inv: "roomInv r" and res: "playCardInRoom r sid i now = Some (r', sent)"
  shows "roomInv r'"
proof -
  from playCardInRoom_cases [OF res] consider "r' = r"
    | r1 where "gameState r = Playing"
        "\<exists>pi pl c. seat (players r) pi = Some pl \<and> r1 = placeCard r pi pl c i now"
        "resolveTrick r1 = Some (r', sent)"
    | r1 where "gameState r = Playing"
        "\<exists>pi pl c. seat (players r) pi = Some pl \<and> r1 = placeCard r pi pl c i now"
        "r' = fst (nextTurn r1)"
    by blast
  then show ?thesis
  proof cases
    case 1
    with inv show ?thesis by simp
  next
    case 2
    from 2(2) inv have inv1: "roomInv r1" by (auto intro: placeCard_inv)
    from 2(1,2) have ph1: "gameState r1 = Playing" by auto
    from resolveTrick_cases [OF 2(3)] obtain w :: play and n st where
      chk: "checkRoundComplete (r1\<lparr>tricksWon := (tricksWon r1)[nat (playerIndex w) := n + 1],
                    currentTrick := [], currentPlayerIndex := playerIndex w,
                    lastTrickWinner := playerIndex w\<rparr>) = Some (r', st)"
      by blast
    let ?r2 = "r1\<lparr>tricksWon := (tricksWon r1)[nat (playerIndex w) := n + 1],
                    currentTrick := [], currentPlayerIndex := playerIndex w,
                    lastTrickWinner := playerIndex w\<rparr>"
    have "connectedCount ?r2 = connectedCount r1" by (simp add: connectedCount_def)
    with inv1 ph1 have "roomInv ?r2" "gameState ?r2 = Playing"
      by (auto simp: roomInv_def)
    then show ?thesis using chk by (rule checkRoundComplete_inv)
  next
    case 3
    from 3(2) inv have inv1: "roomInv r1" by (auto intro: placeCard_inv)
    from 3(1,2) have ph1: "gameState r1 = Playing" by auto
    have cc: "connectedCount (r1\<lparr>currentPlayerIndex := x\<rparr>) = connectedCount r1" for x
      by (simp add: connectedCount_def)
    from inv1 ph1 show ?thesis
      unfolding 3(3) nextTurn_room by (auto simp: roomInv_def cc)
  qed
qed

lemma disconnectInRoom_inv:
  assumes inv: "roomInv r"
  shows "roomInv (disconnectInRoom r sid now)"
proof (cases "findIndex (hasId sid) (players r) = -1")
  case True
  with inv show ?thesis by (simp add: disconnectInRoom_def)
next
  case False
  let ?r1 = "r\<lparr>players := updateSeat (players r) (findIndex (hasId sid) (players r))
                              (\<lambda>pl. pl\<lparr>connected := False, lastSeen := now\<rparr>),
                 lastActivity := now\<rparr>"
  have down: "connectedCount r \<le> Suc (connectedCount ?r1)"
    by (simp add: connectedCount_def updateSeat_count_down)
  have paused: "disconnectInRoom r sid now = ?r1\<lparr>gameState := Paused\<rparr>"
    if "gameState r = Playing \<or> gameState r = TrumpSelection"
  proof -
    from inv that have "connectedCount r = 4" by (auto simp: roomInv_def)
    with down have "connectedCount ?r1 \<ge> 1" by simp
    with that False show ?thesis by (simp add: disconnectInRoom_def Let_def)
  qed
  have other: "disconnectInRoom r sid now = ?r1"
    if "\<not> (gameState r = Playing \<or> gameState r = TrumpSelection)"
    using that False by (simp add: disconnectInRoom_def Let_def)
  show ?thesis
  proof (cases "gameState r = Playing \<or> gameState r = TrumpSelection")
    case True
    from inv True show ?thesis
      unfolding paused [OF True] by (auto simp: roomInv_def)
  next
    case False
    from inv False show ?thesis
      unfolding other [OF False] by (auto simp: roomInv_def)
  qed
qed

lemma evictInactive_inv:
  assumes inv: "roomInv r"
  shows "roomInv (evictInactive r now)"
proof -
  have "connectedCount (evictInactive r now) = connectedCount r"
    by (simp add: evictInactive_def connectedCount_def count_evict Let_def)
  with inv show ?thesis
    by (auto simp: roomInv_def evictInactive_def Let_def)
qed

lemma dealCards_inv: "roomInv r \<Longrightarrow> roomInv (dealCardsForTrumpSelection rnd r)"
  by (simp add: roomInv_def)

lemma initializeRoom_inv: "roomInv (initializeRoom roomId now)"
  by (simp add: roomInv_def initializeRoom_def connectedCount_def)

lemma roomEvent_inv: "roomEvent ev r r' \<Longrightarrow> roomInv r \<Longrightarrow> roomInv r'"
proof (induction rule: roomEvent.induct)
  case (ev_join sid roomId nm tm isReconnect now rnd r)
  then show ?case by (rule joinInRoom_inv)
next
  case (ev_trump sid roomId trumpChoice now r)
  then show ?case by (rule selectTrumpInRoom_inv)
next
  case (ev_play r sid cardIndex now r' sent roomId)
  from ev_play.prems ev_play.hyps show ?case by (rule playCardInRoom_inv)
next
  case (ev_disconnect sid now r)
  then show ?case by (rule disconnectInRoom_inv)
next
  case (ev_deal roomId rnd r)
  then show ?case by (rule dealCards_inv)
next
  case (ev_health roomId now r)
  then show ?case by (rule evictInactive_inv)
qed

subsection \<open>From the registry to its rooms\<close>

lemma joinRoom_rooms:
  "rooms (fst (joinRoom reg sid rid nm tm rc now rnd)) =
     (if map_of (rooms reg) rid = None \<and> MAX_ROOMS \<le> length (rooms reg) then rooms reg
      else AList.update rid
             (joinInRoom (case map_of (rooms reg) rid of None \<Rightarrow> initializeRoom rid now | Some r \<Rightarrow> r)
                sid nm tm rc now rnd)
             (rooms reg))"
proof (cases "map_of (rooms reg) rid = None \<and> MAX_ROOMS \<le> length (rooms reg)")
  case True
  then show ?thesis by (simp add: joinRoom_def addPlayerToRoom_def)
next
  case False
  let ?r0 = "case map_of (rooms reg) rid of None \<Rightarrow> initializeRoom rid now | Some r \<Rightarrow> r"
  obtain r1 res where sp: "seatPlayer ?r0 \<lparr>id_d = sid, name_d = nm\<rparr> tm rc now = (r1, res)"
    by (cases "seatPlayer ?r0 \<lparr>id_d = sid, name_d = nm\<rparr> tm rc now")
  from False have nf: "(map_of (rooms reg) rid = None \<and> MAX_ROOMS \<le> length (rooms reg)) = False"
    by simp
  show ?thesis
  proof (cases res)
    case (JoinFailure e)
    with sp show ?thesis
      by (simp add: joinRoom_def addPlayerToRoom_def joinInRoom_def nf)
  next
    case (JoinSuccess pos isRec)
    with sp show ?thesis
      by (simp add: joinRoom_def addPlayerToRoom_def joinInRoom_def update_conv' startGame_def
          split_beta nf)
  qed
qed

lemma selectTrump_rooms:
  "rooms (fst (selectTrump reg sid rid t now)) =
     (case map_of (rooms reg) rid of
        None \<Rightarrow> rooms reg
      | Some r \<Rightarrow> AList.update rid (fst (selectTrumpInRoom r sid t now)) (rooms reg))"
  by (simp add: selectTrump_def split_beta split: option.splits)

lemma playCard_rooms:
  assumes "playCard reg sid rid i now = Some (reg', sent)"
  shows "rooms reg' = rooms reg \<or>
     (\<exists>r r'. map_of (rooms reg) rid = Some r \<and> playCardInRoom r sid i now = Some (r', sent) \<and>
         rooms reg' = AList.update rid r' (rooms reg))"
  using assms by (auto simp: playCard_def split: option.splits)

lemma disconnect_rooms:
  "rooms (disconnect reg sid now) = rooms reg \<or>
     (\<exists>rid r. map_of (rooms reg) rid = Some r \<and>
         rooms (disconnect reg sid now) = AList.update rid (disconnectInRoom r sid now) (rooms reg))"
  by (auto simp: disconnect_def Let_def split: option.splits)

lemma dealTimer_rooms:
  "rooms (dealTimer reg rid rnd) =
     (case map_of (rooms reg) rid of
        None \<Rightarrow> rooms reg
      | Some r \<Rightarrow> AList.update rid (dealCardsForTrumpSelection rnd r) (rooms reg))"
  by (simp add: dealTimer_def split: option.splits)

lemma cleanupRoom_rooms:
  "rooms (cleanupRoom reg rid) = rooms reg \<or> rooms (cleanupRoom reg rid) = AList.delete rid (rooms reg)"
  by (simp add: cleanupRoom_def split: option.splits)

lemma checkRoomHealth_rooms:
  "rooms (fst (checkRoomHealth reg rid now)) = rooms reg \<or>
   rooms (fst (checkRoomHealth reg rid now)) = AList.delete rid (rooms reg) \<or>
   (\<exists>r. map_of (rooms reg) rid = Some r \<and>
      rooms (fst (checkRoomHealth reg rid now)) = AList.update rid (evictInactive r now) (rooms reg))"
  using cleanupRoom_rooms [of reg rid]
  by (auto simp: checkRoomHealth_def split: option.splits)

text \<open>A room found in the registry after an event was there before, or is the successor of
  the room that was there before, or of the freshly initialised room of a first join.\<close>

lemma step_room:
  assumes st: "step ev reg = Some reg'" and r': "map_of (rooms reg') rid = Some r'"
  shows "map_of (rooms reg) rid = Some r' \<or>
     (\<exists>r. map_of (rooms reg) rid = Some r \<and> roomEvent ev r r') \<or>
     (map_of (rooms reg) rid = None \<and> (\<exists>now. roomEvent ev (initializeRoom rid now) r'))"
proof (cases ev)
  case (JoinRoom sid rid0 nm tm rc now rnd)
  with st have reg': "reg' = fst (joinRoom reg sid rid0 nm tm rc now rnd)" by simp
  show ?thesis
  proof (cases "map_of (rooms reg) rid0")
    case None
    from r' None roomEvent.ev_join [of sid rid0 nm tm rc now rnd "initializeRoom rid0 now"]
    show ?thesis
      unfolding reg' joinRoom_rooms JoinRoom by (auto simp: update_conv' split: if_splits)
  next
    case (Some r)
    from r' Some roomEvent.ev_join [of sid rid0 nm tm rc now rnd r] show ?thesis
      unfolding reg' joinRoom_rooms JoinRoom by (auto simp: update_conv' split: if_splits)
  qed
next
  case (SelectTrump sid rid0 t now)
  with st have reg': "reg' = fst (selectTrump reg sid rid0 t now)" by simp
  from r' show ?thesis
    unfolding reg' selectTrump_rooms SelectTrump
    by (auto simp: update_conv' split: option.splits if_splits intro: roomEvent.ev_trump)
next
  case (PlayCard sid rid0 i now)
  with st obtain sent where "playCard reg sid rid0 i now = Some (reg', sent)"
    by (cases "playCard reg sid rid0 i now") auto
  from playCard_rooms [OF this] r' show ?thesis
    unfolding PlayCard
    by (auto simp: update_conv' split: if_splits intro: roomEvent.ev_play)
next
  case (Disconnect sid now)
  with st have reg': "reg' = disconnect reg sid now" by simp
  from disconnect_rooms [of reg sid now] r' show ?thesis
    unfolding reg' Disconnect
    by (auto simp: update_conv' split: if_splits intro: roomEvent.ev_disconnect)
next
  case (DealTimer rid0 rnd)
  with st have reg': "reg' = dealTimer reg rid0 rnd" by simp
  from r' show ?thesis
    unfolding reg' dealTimer_rooms DealTimer
    by (auto simp: update_conv' split: option.splits if_splits intro: roomEvent.ev_deal)
next
  case (HealthCheck rid0 now)
  with st have reg': "reg' = fst (checkRoomHealth reg rid0 now)" by simp
  from checkRoomHealth_rooms [of reg rid0 now] r' show ?thesis
    unfolding reg' HealthCheck
    by (auto simp: update_conv' delete_conv' split: if_splits intro: roomEvent.ev_health)
next
  case (CleanupTimer rid0)
  with st have reg': "reg' = cleanupRoom reg rid0" by simp
  from cleanupRoom_rooms [of reg rid0] r' show ?thesis
    unfolding reg' by (auto simp: delete_conv' split: if_splits)
qed

lemma reachable_roomInv:
  "reachable reg \<Longrightarrow> map_of (rooms reg) rid = Some r \<Longrightarrow> roomInv r"
proof (induction arbitrary: rid r rule: reachable.induct)
  case reachable_init
  then show ?case by (simp add: emptyRegistry_def)
next
  case (reachable_step reg ev reg')
  from step_room [OF reachable_step.hyps(2) reachable_step.prems]
  show ?case
    using reachable_step.IH roomEvent_inv initializeRoom_inv by blast
qed


subsection \<open>No handler fails on a reachable registry\<close>

text \<open>The \<open>None\<close> results of the model stand for the places where the JavaScript
  would throw or compute with \<open>undefined\<close>. On a registry that the server can reach none
  of them is taken: every event has a successor registry.\<close>

lemma getTrickWinner_member:
  assumes "trick \<noteq> []"
  shows "\<exists>w. getTrickWinner trick tr = Some w \<and> w \<in> set trick"
proof -
  from assms obtain t0 ts where trick: "trick = t0 # ts" by (cases trick) auto
  let ?isT = "\<lambda>t. Some (suit (cardOf t)) = tr"
  let ?isL = "\<lambda>t. suit (cardOf t) = suit (cardOf t0)"
  have unfold: "getTrickWinner trick tr =
      (if filter ?isT trick \<noteq> [] then reduce1 (higher tr) (filter ?isT trick)
       else reduce1 (higher tr) (filter ?isL trick))"
    unfolding getTrickWinner_def trick by (simp only: list.case Let_def length_greater_0_conv)
  show ?thesis
  proof (cases "filter ?isT trick = []")
    case True
    have "t0 \<in> set (filter ?isL trick)" by (simp add: trick)
    then have ne: "filter ?isL trick \<noteq> []" by (metis empty_iff empty_set)
    from reduce1_higher [OF ne, of tr] obtain w where
      w: "reduce1 (higher tr) (filter ?isL trick) = Some w" "w \<in> set (filter ?isL trick)" by blast
    from w(2) have "w \<in> set trick" by (simp only: set_filter mem_Collect_eq)
    with w(1) True show ?thesis by (simp only: unfold) simp
  next
    case False
    from reduce1_higher [OF False, of tr] obtain w where
      w: "reduce1 (higher tr) (filter ?isT trick) = Some w" "w \<in> set (filter ?isT trick)" by blast
    from w(2) have "w \<in> set trick" by (simp only: set_filter mem_Collect_eq)
    with w(1) False show ?thesis by (simp only: unfold) simp
  qed
qed

lemma checkRoundComplete_total:
  assumes "length (tricksWon r) = 4"
  shows "\<exists>r' st. checkRoundComplete r = Some (r', st)"
proof -
  from assms obtain w0 w1 w2 w3 where tw: "tricksWon r = [w0, w1, w2, w3]"
    by (auto simp: length_Suc_conv numeral_eq_Suc)
  show ?thesis
    by (simp add: checkRoundComplete_def nth_js_def tw Let_def)
qed

lemma resolveTrick_total:
  assumes inv: "roomInv r1" and four: "length (currentTrick r1) = 4"
  shows "\<exists>r' sent. resolveTrick r1 = Some (r', sent)"
proof -
  from four have "currentTrick r1 \<noteq> []" by auto
  from getTrickWinner_member [OF this, of "trumpSuit (trump r1)"] obtain w where
    w: "getTrickWinner (currentTrick r1) (trumpSuit (trump r1)) = Some w" "w \<in> set (currentTrick r1)" by blast
  from inv w(2) have range: "0 \<le> playerIndex w" "playerIndex w < 4" and ltw: "length (tricksWon r1) = 4"
    by (auto simp: roomInv_def)
  then have n: "nth_js (tricksWon r1) (playerIndex w) = Some (tricksWon r1 ! nat (playerIndex w))"
    by (simp add: nth_js_def)
  let ?r2 = "r1\<lparr>tricksWon := (tricksWon r1)[nat (playerIndex w) := tricksWon r1 ! nat (playerIndex w) + 1],
                 currentTrick := [], currentPlayerIndex := playerIndex w,
                 lastTrickWinner := playerIndex w\<rparr>"
  from ltw have "length (tricksWon ?r2) = 4" by simp
  from checkRoundComplete_total [OF this] obtain r' st where
    "checkRoundComplete ?r2 = Some (r', st)" by blast
  with w(1) n show ?thesis
    by (simp add: resolveTrick_def Let_def)
qed

lemma findIndex_seat:
  assumes "findIndex (hasId sid) ps \<noteq> -1"
  shows "\<exists>pl. seat ps (findIndex (hasId sid) ps) = Some pl"
proof -
  from assms obtain k where k: "k < length ps" "findIndex (hasId sid) ps = int k" "hasId sid (ps ! k)"
    by (rule findIndex_some)
  from k(3) obtain pl where "ps ! k = Some pl" by (auto simp: hasId_def split: option.splits)
  with k(1,2) show ?thesis by (simp add: seat_nat)
qed

lemma playCardInRoom_total:
  assumes inv: "roomInv r"
  shows "\<exists>r' sent. playCardInRoom r sid i now = Some (r', sent)"
proof (cases "gameState r = Playing \<and> findIndex (hasId sid) (players r) \<noteq> -1 \<and>
    findIndex (hasId sid) (players r) = currentPlayerIndex r")
  case False
  then show ?thesis by (auto simp: playCardInRoom_def Let_def)
next
  case True
  let ?pi = "findIndex (hasId sid) (players r)"
  from True findIndex_seat [of sid "players r"] obtain pl where pl: "seat (players r) ?pi = Some pl"
    by blast
  show ?thesis
  proof (cases "\<exists>c. nth_js (hand pl) (int i) = Some (Some c) \<and>
      isValidPlay c (hand pl) (currentTrick r) (trump r)")
    case False
    with True pl show ?thesis
      by (auto simp: playCardInRoom_def Let_def split: option.splits list.splits)
  next
    case valid: True
    then obtain c where c: "nth_js (hand pl) (int i) = Some (Some c)"
      "isValidPlay c (hand pl) (currentTrick r) (trump r)" by blast
    let ?r1 = "placeCard r ?pi pl c i now"
    from True pl c have eq: "playCardInRoom r sid i now =
        (if length (currentTrick ?r1) = 4 then resolveTrick ?r1 else Some (nextTurn ?r1))"
      by (simp add: playCardInRoom_def Let_def)
    from inv pl have inv1: "roomInv ?r1" by (rule placeCard_inv)
    show ?thesis
    proof (cases "length (currentTrick ?r1) = 4")
      case True
      from resolveTrick_total [OF inv1 True] show ?thesis unfolding eq by (simp add: True)
    next
      case False
      then show ?thesis unfolding eq by (cases "nextTurn ?r1") simp
    qed
  qed
qed

lemma step_total:
  assumes "reachable reg"
  shows "\<exists>reg'. step ev reg = Some reg'"
proof (cases ev)
  case (PlayCard sid rid i now)
  show ?thesis
  proof (cases "map_of (rooms reg) rid")
    case None
    then show ?thesis by (simp add: PlayCard playCard_def)
  next
    case (Some r)
    with assms have "roomInv r" by (rule reachable_roomInv)
    from playCardInRoom_total [OF this, of sid i now] Some show ?thesis
      by (auto simp: PlayCard playCard_def)
  qed
qed simp_all

subsection \<open>Replaying events\<close>

lemma history_reachable: "reachableWithHistory reg h \<Longrightarrow> reachable reg"
  by (induction rule: reachableWithHistory.induct) (auto intro: reachable.intros)

lemma replay_history:
  "reachableWithHistory reg h \<Longrightarrow>
     reachableWithHistory (fst (replay evs (reg, h))) (snd (replay evs (reg, h)))"
proof (induction evs arbitrary: reg h)
  case Nil
  then show ?case by simp
next
  case (Cons ev evs)
  show ?case
  proof (cases "step ev reg")
    case None
    with Cons.prems show ?thesis by simp
  next
    case (Some reg')
    from Cons.prems Some have "reachableWithHistory reg' (recorded ev reg reg' h)"
      by (rule history_step)
    from Cons.IH [OF this] Some show ?thesis by simp
  qed
qed

lemma replay_initial:
  "reachableWithHistory (fst (replay evs initial)) (snd (replay evs initial))"
  unfolding initial_def by (rule replay_history) (rule history_init)

lemma replay_reachable: "reachable (fst (replay evs initial))"
  using replay_initial by (rule history_reachable)

lemma replay_deal_end: "fst (replay (ex_joins @ butlast ex_deal_a) initial) = ex_deal_end"
  by code_simp

lemma replay_last_card: "fst (replay (butlast ex_match) initial) = ex_last_card"
  by code_simp

lemma replay_match_end: "fst (replay ex_match initial) = ex_match_end"
  by code_simp

lemma reachable_deal_end: "reachable ex_deal_end"
  using replay_reachable [of "ex_joins @ butlast ex_deal_a"] by (simp only: replay_deal_end)

lemma reachable_last_card: "reachable ex_last_card"
  using replay_reachable [of "butlast ex_match"] by (simp only: replay_last_card)

subsection \<open>Disconnection\<close>









text \<open>Where \<open>playerSockets\<close> does not map the socket to the room, the handler leaves the
  room alone.\<close>

lemma disconnect_elsewhere:
  assumes "map_of (rooms reg) roomId = Some room"
    and "map_of (playerSockets reg) sid \<noteq> Some roomId"
  shows "map_of (rooms (disconnect reg sid now)) roomId = Some room"
  using assms
  by (auto simp: disconnect_def Let_def update_conv' split: option.splits)



subsection \<open>The end of a match\<close>

lemma checkRoundComplete_target:
  assumes res: "checkRoundComplete r = Some (r', st)"
    and below: "teamA (scores r) < 10" "teamB (scores r) < 10"
    and target: "10 \<le> teamA (scores r') \<or> 10 \<le> teamB (scores r')"
  shows "gameState r' = Completed \<and> gameComplete st \<and>
     (\<exists>res. roundResult st = Some res \<and> 0 < pointsAwarded res \<and>
        ((winningTeam res = Some TeamA \<and> teamA (scores r') = teamA (scores r) + pointsAwarded res \<and>
          teamB (scores r') = teamB (scores r)) \<or>
         (winningTeam res = Some TeamB \<and> teamB (scores r') = teamB (scores r) + pointsAwarded res \<and>
          teamA (scores r') = teamA (scores r))))"
proof (cases "8 \<le> foldl (+) 0 (tricksWon r)")
  case False
  with res below target show ?thesis by (auto simp: checkRoundComplete_def)
next
  case True
  with res below target show ?thesis
    by (auto simp: checkRoundComplete_def Let_def split: option.splits if_splits)
qed

lemma playCardInRoom_scores:
  assumes res: "playCardInRoom r sid i now = Some (r', sent)"
  shows "scores r' = scores r \<or>
     (\<exists>r2 st. gameState r = Playing \<and> scores r2 = scores r \<and> checkRoundComplete r2 = Some (r', st) \<and>
        sent = (if gameComplete st
                then [GameOver (finalWinnerOf (scores r')) (scores r') (roundResult st)]
                else if roundComplete st then [RoundCompleteMsg (roundResult st) (scores r')]
                else []))"
proof -
  from playCardInRoom_cases [OF res] consider "r' = r"
    | r1 where "gameState r = Playing"
        "\<exists>pi pl c. seat (players r) pi = Some pl \<and> r1 = placeCard r pi pl c i now"
        "resolveTrick r1 = Some (r', sent)"
    | r1 where "gameState r = Playing"
        "\<exists>pi pl c. seat (players r) pi = Some pl \<and> r1 = placeCard r pi pl c i now"
        "r' = fst (nextTurn r1)"
    by blast
  then show ?thesis
  proof cases
    case 1
    then show ?thesis by simp
  next
    case 2
    from 2(2) have sc: "scores r1 = scores r" by auto
    from resolveTrick_cases [OF 2(3)] obtain w :: play and n st where
      chk: "checkRoundComplete (r1\<lparr>tricksWon := (tricksWon r1)[nat (playerIndex w) := n + 1],
                    currentTrick := [], currentPlayerIndex := playerIndex w,
                    lastTrickWinner := playerIndex w\<rparr>) = Some (r', st)"
      and sent: "sent = (if gameComplete st
                then [GameOver (finalWinnerOf (scores r')) (scores r') (roundResult st)]
                else if roundComplete st then [RoundCompleteMsg (roundResult st) (scores r')]
                else [])"
      by blast
    have "scores (r1\<lparr>tricksWon := (tricksWon r1)[nat (playerIndex w) := n + 1],
                    currentTrick := [], currentPlayerIndex := playerIndex w,
                    lastTrickWinner := playerIndex w\<rparr>) = scores r"
      by (simp add: sc)
    with 2(1) chk sent show ?thesis by blast
  next
    case 3
    from 3(2) have "scores r1 = scores r" by auto
    then show ?thesis unfolding 3(3) nextTurn_room by simp
  qed
qed

text \<open>Claim C5. For every room of a reachable registry that is in the \<open>Playing\<close> phase, and
  every run of the \<open>playCard\<close> handler after which a team's score has reached the target of
  10: the room is in the \<open>Completed\<close> phase, the two scores differ, and the handler sends
  exactly one \<open>gameOver\<close> notification. Its winner is not \<open>Tie\<close>: it is the team that the
  round result names as the winner of the deal just completed, the team whose score the deal
  raised by the points awarded (1 or 2) while the other score stayed as it was.\<close>

theorem match_winner:
  assumes reach: "reachable reg"
    and room: "map_of (rooms reg) roomId = Some room"
    and ph: "gameState room = Playing"
    and play: "playCard reg sid roomId cardIndex now = Some (reg', sent)"
    and room': "map_of (rooms reg') roomId = Some room'"
    and target: "10 \<le> teamA (scores room') \<or> 10 \<le> teamB (scores room')"
  shows "gameState room' = Completed \<and> teamA (scores room') \<noteq> teamB (scores room') \<and>
     (\<exists>res. sent = [GameOver (finalWinnerOf (scores room')) (scores room') (Some res)] \<and>
        finalWinnerOf (scores room') \<noteq> Tie \<and> 0 < pointsAwarded res \<and>
        ((finalWinnerOf (scores room') = TeamAWins \<and> winningTeam res = Some TeamA \<and>
          teamA (scores room') = teamA (scores room) + pointsAwarded res \<and>
          teamB (scores room') = teamB (scores room)) \<or>
         (finalWinnerOf (scores room') = TeamBWins \<and> winningTeam res = Some TeamB \<and>
          teamB (scores room') = teamB (scores room) + pointsAwarded res \<and>
          teamA (scores room') = teamA (scores room))))"
proof -
  from reach room have inv: "roomInv room" by (rule reachable_roomInv)
  with ph have below: "teamA (scores room) < 10" "teamB (scores room) < 10"
    by (simp_all add: roomInv_def)
  from play room room' have inroom: "playCardInRoom room sid cardIndex now = Some (room', sent)"
    by (auto simp: playCard_def update_conv' split: option.splits)
  from playCardInRoom_scores [OF inroom] below target obtain r2 st where
    r2: "scores r2 = scores room" and chk: "checkRoundComplete r2 = Some (room', st)"
    and sent: "sent = (if gameComplete st
                then [GameOver (finalWinnerOf (scores room')) (scores room') (roundResult st)]
                else if roundComplete st then [RoundCompleteMsg (roundResult st) (scores room')]
                else [])"
    by auto
  from checkRoundComplete_target [OF chk] below target r2
  obtain res where fin: "gameState room' = Completed" "gameComplete st"
    and res: "roundResult st = Some res" "0 < pointsAwarded res"
      "(winningTeam res = Some TeamA \<and> teamA (scores room') = teamA (scores room) + pointsAwarded res \<and>
          teamB (scores room') = teamB (scores room)) \<or>
       (winningTeam res = Some TeamB \<and> teamB (scores room') = teamB (scores room) + pointsAwarded res \<and>
          teamA (scores room') = teamA (scores room))"
    by auto
  from res(3) show ?thesis
  proof
    assume a: "winningTeam res = Some TeamA \<and> teamA (scores room') = teamA (scores room) + pointsAwarded res \<and>
          teamB (scores room') = teamB (scores room)"
    with below target have "teamB (scores room') < teamA (scores room')" by linarith
    then have "finalWinnerOf (scores room') = TeamAWins" by (simp add: finalWinnerOf_def)
    with a fin res sent \<open>teamB (scores room') < teamA (scores room')\<close> show ?thesis by simp
  next
    assume b: "winningTeam res = Some TeamB \<and> teamB (scores room') = teamB (scores room) + pointsAwarded res \<and>
          teamA (scores room') = teamA (scores room)"
    with below target have lt: "teamA (scores room') < teamB (scores room')" by linarith
    then have "finalWinnerOf (scores room') = TeamBWins" by (simp add: finalWinnerOf_def)
    with b fin res sent lt show ?thesis by simp
  qed
qed

lemma ex_last_play:
  "playCard ex_last_card ''s0'' ''r'' 7 42 =
     Some (ex_match_end,
           [GameOver TeamBWins \<lparr>teamA = 0, teamB = 10\<rparr>
              (Some \<lparr>winningTeam = Some TeamB, pointsAwarded = 2, teamATricks = 0, teamBTricks = 8,
                      trumpTeam = TeamA, defendingTeam = TeamB\<rparr>)])"
  by code_simp

theorem match_winner_witness:
  "reachable ex_last_card \<and> map_of (rooms ex_last_card) ''r'' = Some ex_last_card_room \<and>
   gameState ex_last_card_room = Playing \<and>
   playCard ex_last_card ''s0'' ''r'' 7 42 =
     Some (ex_match_end,
           [GameOver TeamBWins \<lparr>teamA = 0, teamB = 10\<rparr>
              (Some \<lparr>winningTeam = Some TeamB, pointsAwarded = 2, teamATricks = 0, teamBTricks = 8,
                      trumpTeam = TeamA, defendingTeam = TeamB\<rparr>)]) \<and>
   map_of (rooms ex_match_end) ''r'' = Some ex_match_end_room \<and>
   (10 \<le> teamA (scores ex_match_end_room) \<or> 10 \<le> teamB (scores ex_match_end_room)) \<and>
   gameState ex_match_end_room = Completed \<and>
   teamA (scores ex_match_end_room) \<noteq> teamB (scores ex_match_end_room) \<and>
   finalWinnerOf (scores ex_match_end_room) = TeamBWins"
proof -
  have room: "map_of (rooms ex_last_card) ''r'' = Some ex_last_card_room"
    by (simp add: ex_last_card_def)
  have ph: "gameState ex_last_card_room = Playing"
    by (simp add: ex_last_card_room_def)
  have room': "map_of (rooms ex_match_end) ''r'' = Some ex_match_end_room"
    by (simp add: ex_match_end_def)
  have target: "10 \<le> teamA (scores ex_match_end_room) \<or> 10 \<le> teamB (scores ex_match_end_room)"
    by (simp add: ex_match_end_room_def)
  have fw: "finalWinnerOf (scores ex_match_end_room) = TeamBWins"
    by (simp add: ex_match_end_room_def finalWinnerOf_def)
  from match_winner [OF reachable_last_card room ph ex_last_play room' target]
  have "gameState ex_match_end_room = Completed \<and>
        teamA (scores ex_match_end_room) \<noteq> teamB (scores ex_match_end_room)"
    by blast
  with reachable_last_card room ph ex_last_play room' target fw show ?thesis by blast
qed

subsection \<open>Trump and phase\<close>

lemma checkRoundComplete_trump:
  assumes "checkRoundComplete r = Some (r', st)"
  shows "(trump r' = trump r \<and> (gameState r' = gameState r \<or> gameState r' = Completed)) \<or>
         (gameState r' = TrumpSelection \<and> trump r' = None)"
  using assms
  by (auto simp: checkRoundComplete_def Let_def split: option.splits if_splits)

lemma playCardInRoom_trump:
  assumes "playCardInRoom r sid i now = Some (r', sent)"
  shows "(trump r' = trump r \<and>
          (gameState r' = gameState r \<or> (gameState r = Playing \<and> gameState r' = Completed))) \<or>
         (gameState r = Playing \<and> gameState r' = TrumpSelection \<and> trump r' = None)"
proof -
  from playCardInRoom_cases [OF assms] consider "r' = r"
    | r1 where "gameState r = Playing"
        "\<exists>pi pl c. seat (players r) pi = Some pl \<and> r1 = placeCard r pi pl c i now"
        "resolveTrick r1 = Some (r', sent)"
    | r1 where "gameState r = Playing"
        "\<exists>pi pl c. seat (players r) pi = Some pl \<and> r1 = placeCard r pi pl c i now"
        "r' = fst (nextTurn r1)"
    by blast
  then show ?thesis
  proof cases
    case 1
    then show ?thesis by simp
  next
    case 2
    from 2(2) have f: "gameState r1 = gameState r" "trump r1 = trump r" by auto
    from resolveTrick_cases [OF 2(3)] obtain w :: play and n st where
      chk: "checkRoundComplete (r1\<lparr>tricksWon := (tricksWon r1)[nat (playerIndex w) := n + 1],
                    currentTrick := [], currentPlayerIndex := playerIndex w,
                    lastTrickWinner := playerIndex w\<rparr>) = Some (r', st)"
      by blast
    from checkRoundComplete_trump [OF chk] f 2(1) show ?thesis by auto
  next
    case 3
    from 3(2) have "gameState r1 = gameState r" "trump r1 = trump r" by auto
    then show ?thesis unfolding 3(3) nextTurn_room by simp
  qed
qed

lemma joinInRoom_trump:
  "trump (joinInRoom r sid nm tm rc now rnd) = trump r \<and>
     (gameState (joinInRoom r sid nm tm rc now rnd) = gameState r \<or>
      (gameState r = Paused \<and>
       gameState (joinInRoom r sid nm tm rc now rnd) =
         (if trump r = None then TrumpSelection else Playing)) \<or>
      (gameState r = Waiting \<and> gameState (joinInRoom r sid nm tm rc now rnd) = TrumpSelection))"
proof -
  obtain r1 res where sp: "seatPlayer r \<lparr>id_d = sid, name_d = nm\<rparr> tm rc now = (r1, res)"
    by (cases "seatPlayer r \<lparr>id_d = sid, name_d = nm\<rparr> tm rc now")
  from seatPlayer_frame [OF sp] have f: "gameState r1 = gameState r" "trump r1 = trump r" by simp_all
  have resume: "trump (fst (resumeGame rnd' r1 pos)) = trump r1 \<and>
      (gameState (fst (resumeGame rnd' r1 pos)) = gameState r1 \<or>
       (gameState r1 = Paused \<and>
        gameState (fst (resumeGame rnd' r1 pos)) = (if trump r1 = None then TrumpSelection else Playing)))"
    for rnd' pos
    by (auto simp: resumeGame_def Let_def split: if_splits option.splits)
  have start: "trump (fst (startGameInRoom r1 now rnd)) = trump r1 \<and>
      (gameState (fst (startGameInRoom r1 now rnd)) = gameState r1 \<or>
       gameState (fst (startGameInRoom r1 now rnd)) = TrumpSelection)"
    by (auto simp: startGameInRoom_def Let_def)
  show ?thesis
  proof (cases res)
    case (JoinFailure e)
    with f show ?thesis by (simp add: joinInRoom_def sp)
  next
    case (JoinSuccess pos isRec)
    show ?thesis
    proof (cases isRec)
      case True
      with JoinSuccess have "joinInRoom r sid nm tm rc now rnd = fst (resumeGame rnd r1 pos)"
        by (simp add: joinInRoom_def sp)
      with resume [of rnd pos] f show ?thesis by auto
    next
      case False
      with JoinSuccess have "joinInRoom r sid nm tm rc now rnd =
          (if connectedCount r1 = 4 \<and> gameState r1 = Waiting
           then fst (startGameInRoom r1 now rnd) else r1)"
        by (simp add: joinInRoom_def sp)
      with start f show ?thesis by auto
    qed
  qed
qed

lemma disconnectInRoom_trump:
  "trump (disconnectInRoom r sid now) = trump r \<and>
     (gameState (disconnectInRoom r sid now) = gameState r \<or>
      (gameState (disconnectInRoom r sid now) = Paused \<and>
       (gameState r = Playing \<or> gameState r = TrumpSelection)))"
  by (auto simp: disconnectInRoom_def Let_def)

text \<open>What an event other than \<open>selectTrump\<close> can do to the phase and the trump of a room.\<close>

lemma roomEvent_trump:
  assumes "roomEvent ev r r'"
  shows "(\<exists>sid rid v now. ev = SelectTrump sid rid v now) \<or>
     (trump r' = trump r \<and>
        (gameState r' = gameState r \<or>
         (gameState r' = Paused \<and> (gameState r = Playing \<or> gameState r = TrumpSelection)) \<or>
         (gameState r = Paused \<and> gameState r' = (if trump r = None then TrumpSelection else Playing)) \<or>
         (gameState r = Waiting \<and> gameState r' = TrumpSelection) \<or>
         (gameState r = Playing \<and> gameState r' = Completed))) \<or>
     (gameState r = Playing \<and> gameState r' = TrumpSelection \<and> trump r' = None)"
  using assms
proof (induction rule: roomEvent.induct)
  case (ev_join sid roomId nm tm isReconnect now rnd r)
  from joinInRoom_trump [of r sid nm tm isReconnect now rnd] show ?case by auto
next
  case (ev_trump sid roomId trumpChoice now r)
  then show ?case by simp
next
  case (ev_play r sid cardIndex now r' sent roomId)
  from playCardInRoom_trump [OF ev_play.hyps] show ?case by auto
next
  case (ev_disconnect sid now r)
  from disconnectInRoom_trump [of r sid now] show ?case by auto
next
  case (ev_deal roomId rnd r)
  then show ?case by simp
next
  case (ev_health roomId now r)
  then show ?case by (simp add: evictInactive_def Let_def)
qed

text \<open>What \<open>selectTrump\<close> does to a room: nothing unless both checks pass, and then the room
  is \<open>Playing\<close> with the trump of the message.\<close>

lemma selectTrumpInRoom_trump:
  "fst (selectTrumpInRoom r sid v now) =
     (if gameState r = TrumpSelection \<and> findIndex (hasId sid) (players r) = currentPlayerIndex r
      then dealRemainingCards (r\<lparr>trump := v, trumpSelector := findIndex (hasId sid) (players r),
                                  gameState := Playing, lastActivity := now\<rparr>)
      else r)"
  by (simp add: selectTrumpInRoom_def Let_def split: option.splits)

lemma history_trump:
  assumes "reachableWithHistory reg h" and "map_of (rooms reg) rid = Some r"
  shows "trump r =
     (if gameState r = Playing \<or> gameState r = Completed \<or>
         (gameState r = Paused \<and> interruptedPhase h rid = Playing)
      then selectedTrump h rid else None) \<and>
     (gameState r = Paused \<longrightarrow>
        interruptedPhase h rid = Playing \<or> interruptedPhase h rid = TrumpSelection)"
  using assms
proof (induction arbitrary: rid r rule: reachableWithHistory.induct)
  case history_init
  then show ?case by (simp add: emptyRegistry_def)
next
  case (history_step reg h ev reg')
  note st = history_step.hyps(2) and r' = history_step.prems
  let ?g = "interruptedPhase h" and ?p = "selectedTrump h"
  have g': "interruptedPhase (recorded ev reg reg' h) rid = interrupted reg reg' ?g rid"
    and p': "selectedTrump (recorded ev reg reg' h) rid = selected ev reg ?p rid"
    by (simp_all add: recorded_def)
  have unchanged: ?case if old: "map_of (rooms reg) rid = Some r" and p: "selected ev reg ?p rid = ?p rid"
  proof -
    from old r' have "interrupted reg reg' ?g rid = ?g rid" by (simp add: interrupted_def)
    with history_step.IH [OF old] p show ?thesis unfolding g' p' by simp
  qed
  have quiet: ?case
    if old: "map_of (rooms reg) rid = Some r0 \<or> (map_of (rooms reg) rid = None \<and> r0 = initializeRoom rid now)"
      and p: "selected ev reg ?p rid = ?p rid"
      and t: "(trump r = trump r0 \<and>
        (gameState r = gameState r0 \<or>
         (gameState r = Paused \<and> (gameState r0 = Playing \<or> gameState r0 = TrumpSelection)) \<or>
         (gameState r0 = Paused \<and> gameState r = (if trump r0 = None then TrumpSelection else Playing)) \<or>
         (gameState r0 = Waiting \<and> gameState r = TrumpSelection) \<or>
         (gameState r0 = Playing \<and> gameState r = Completed))) \<or>
        (gameState r0 = Playing \<and> gameState r = TrumpSelection \<and> trump r = None)"
    for r0 now
  proof -
    from old show ?thesis
    proof
      assume old: "map_of (rooms reg) rid = Some r0"
      from old r' have g: "interrupted reg reg' ?g rid =
          (if gameState r = Paused \<and> gameState r0 \<noteq> Paused then gameState r0 else ?g rid)"
        by (simp add: interrupted_def)
      from history_step.IH [OF old] t show ?thesis
        unfolding g' p' g p by (cases "gameState r0"; cases "gameState r") (auto split: if_splits)
    next
      assume fresh: "map_of (rooms reg) rid = None \<and> r0 = initializeRoom rid now"
      then have "gameState r0 = Waiting" "trump r0 = None" by (simp_all add: initializeRoom_def)
      with t show ?thesis unfolding g' p' p by auto
    qed
  qed
  show ?case
  proof (cases "\<exists>sid rid0 v now. ev = SelectTrump sid rid0 v now")
    case True
    then obtain sid rid0 v now where ev: "ev = SelectTrump sid rid0 v now" by blast
    from st have reg': "rooms reg' = rooms (fst (selectTrump reg sid rid0 v now))"
      by (simp add: ev)
    show ?thesis
    proof (cases "map_of (rooms reg) rid0")
      case None
      with reg' have "rooms reg' = rooms reg" by (simp add: selectTrump_rooms)
      with r' have old: "map_of (rooms reg) rid = Some r" by simp
      from None have "selected ev reg ?p rid = ?p rid" by (simp add: selected_def ev)
      with old show ?thesis by (rule unchanged)
    next
      case (Some r0)
      with reg' have upd: "rooms reg' = AList.update rid0 (fst (selectTrumpInRoom r0 sid v now)) (rooms reg)"
        by (simp add: selectTrump_rooms)
      show ?thesis
      proof (cases "rid = rid0")
        case False
        with upd r' have old: "map_of (rooms reg) rid = Some r" by (simp add: update_conv')
        from False have "selected ev reg ?p rid = ?p rid"
          by (simp add: selected_def ev split: option.splits)
        with old show ?thesis by (rule unchanged)
      next
        case True
        with upd r' have r: "r = fst (selectTrumpInRoom r0 sid v now)" by (simp add: update_conv')
        show ?thesis
        proof (cases "gameState r0 = TrumpSelection \<and>
            findIndex (hasId sid) (players r0) = currentPlayerIndex r0")
          case False
          with r have "r = r0" by (simp add: selectTrumpInRoom_trump)
          with Some True have old: "map_of (rooms reg) rid = Some r" by simp
          from False Some True have "selected ev reg ?p rid = ?p rid"
            by (auto simp: selected_def ev)
          with old show ?thesis by (rule unchanged)
        next
          case accepted: True
          with r have new: "gameState r = Playing" "trump r = v"
            by (simp_all add: selectTrumpInRoom_trump)
          from accepted Some True have "selected ev reg ?p rid = v"
            by (simp add: selected_def ev)
          with new show ?thesis unfolding g' p' by simp
        qed
      qed
    qed
  next
    case False
    then have p: "selected ev reg ?p rid = ?p rid"
      by (cases ev) (simp_all add: selected_def)
    from step_room [OF st r']
    consider (same) "map_of (rooms reg) rid = Some r"
      | (succ) r0 where "map_of (rooms reg) rid = Some r0" "roomEvent ev r0 r"
      | (fresh) now where "map_of (rooms reg) rid = None" "roomEvent ev (initializeRoom rid now) r"
      by blast
    then show ?thesis
    proof cases
      case same
      from this p show ?thesis by (rule unchanged)
    next
      case succ
      from roomEvent_trump [OF succ(2)] False succ(1) p show ?thesis
        by (intro quiet [of r0]) auto
    next
      case fresh
      from roomEvent_trump [OF fresh(2)] False fresh(1) p show ?thesis
        by (intro quiet [of "initializeRoom rid now" now]) auto
    qed
  qed
qed

lemma replay_pause_playing:
  "map (\<lambda>(rid, r). (rid, gameState r, trump r)) (rooms (fst (replay ex_pause_playing initial))) =
     [(''r'', Paused, Some (SuitName Diamonds))] \<and>
   interruptedPhase (snd (replay ex_pause_playing initial)) ''r'' = Playing \<and>
   selectedTrump (snd (replay ex_pause_playing initial)) ''r'' = Some (SuitName Diamonds)"
  by code_simp

lemma replay_pause_selecting:
  "map (\<lambda>(rid, r). (rid, gameState r, trump r)) (rooms (fst (replay ex_pause_selecting initial))) =
     [(''r'', Paused, None)] \<and>
   interruptedPhase (snd (replay ex_pause_selecting initial)) ''r'' = TrumpSelection"
  by code_simp

lemma replay_null_trump:
  "map (\<lambda>(rid, r). (rid, gameState r, trump r)) (rooms (fst (replay ex_null_trump initial))) =
     [(''r'', Playing, None)] \<and>
   selectedTrump (snd (replay ex_null_trump initial)) ''r'' = None"
  by code_simp

lemma single_room:
  assumes "map (\<lambda>(rid, r). (rid, f r)) rs = [(k, v)]"
  shows "map_of rs k = Some (snd (hd rs)) \<and> f (snd (hd rs)) = v"
  using assms by (cases rs) auto

text \<open>Claim C6, as amended. For every room of a reachable registry, where the history gives
  for the room id the phase that the last pause interrupted and the trump value of the last
  \<open>selectTrump\<close> message that the server accepted: \<open>room.trump\<close> is non-null if and only if
  both hold: the phase is \<open>Playing\<close> or \<open>Completed\<close>, or it is \<open>Paused\<close> and the interrupted
  phase was \<open>Playing\<close>; and that trump value is non-null. In those phases \<open>room.trump\<close> is
  that value, as the client sent it; in the phases \<open>Waiting\<close> and \<open>TrumpSelection\<close>, and in
  a room paused during the trump selection, it is null. A \<open>Completed\<close> room keeps the trump
  of its last deal. A paused room was interrupted in \<open>Playing\<close> or in \<open>TrumpSelection\<close>.\<close>

theorem trump_by_phase:
  assumes "reachableWithHistory reg h" and "map_of (rooms reg) roomId = Some room"
  shows "(trump room \<noteq> None) =
     ((gameState room = Playing \<or> gameState room = Completed \<or>
       (gameState room = Paused \<and> interruptedPhase h roomId = Playing)) \<and>
      selectedTrump h roomId \<noteq> None) \<and>
     trump room =
       (if gameState room = Playing \<or> gameState room = Completed \<or>
           (gameState room = Paused \<and> interruptedPhase h roomId = Playing)
        then selectedTrump h roomId else None) \<and>
     (gameState room = Paused \<longrightarrow>
        interruptedPhase h roomId = Playing \<or> interruptedPhase h roomId = TrumpSelection)"
  using history_trump [OF assms] by auto

theorem trump_by_phase_witness:
  "reachableWithHistory (fst (replay ex_pause_playing initial)) (snd (replay ex_pause_playing initial)) \<and>
   map_of (rooms (fst (replay ex_pause_playing initial))) ''r'' =
     Some (snd (hd (rooms (fst (replay ex_pause_playing initial))))) \<and>
   gameState (snd (hd (rooms (fst (replay ex_pause_playing initial))))) = Paused \<and>
   interruptedPhase (snd (replay ex_pause_playing initial)) ''r'' = Playing \<and>
   selectedTrump (snd (replay ex_pause_playing initial)) ''r'' = Some (SuitName Diamonds) \<and>
   trump (snd (hd (rooms (fst (replay ex_pause_playing initial))))) = Some (SuitName Diamonds) \<and>
   reachableWithHistory (fst (replay ex_pause_selecting initial)) (snd (replay ex_pause_selecting initial)) \<and>
   map_of (rooms (fst (replay ex_pause_selecting initial))) ''r'' =
     Some (snd (hd (rooms (fst (replay ex_pause_selecting initial))))) \<and>
   gameState (snd (hd (rooms (fst (replay ex_pause_selecting initial))))) = Paused \<and>
   interruptedPhase (snd (replay ex_pause_selecting initial)) ''r'' = TrumpSelection \<and>
   trump (snd (hd (rooms (fst (replay ex_pause_selecting initial))))) = None \<and>
   reachableWithHistory (fst (replay ex_null_trump initial)) (snd (replay ex_null_trump initial)) \<and>
   map_of (rooms (fst (replay ex_null_trump initial))) ''r'' =
     Some (snd (hd (rooms (fst (replay ex_null_trump initial))))) \<and>
   gameState (snd (hd (rooms (fst (replay ex_null_trump initial))))) = Playing \<and>
   selectedTrump (snd (replay ex_null_trump initial)) ''r'' = None \<and>
   trump (snd (hd (rooms (fst (replay ex_null_trump initial))))) = None"
proof -
  let ?p = "replay ex_pause_playing initial" and ?s = "replay ex_pause_selecting initial"
    and ?n = "replay ex_null_trump initial"
  from replay_pause_playing
  have p: "map_of (rooms (fst ?p)) ''r'' = Some (snd (hd (rooms (fst ?p))))"
    "gameState (snd (hd (rooms (fst ?p)))) = Paused" "interruptedPhase (snd ?p) ''r'' = Playing"
    "selectedTrump (snd ?p) ''r'' = Some (SuitName Diamonds)"
    using single_room [of "\<lambda>r. (gameState r, trump r)" "rooms (fst ?p)" "''r''"
        "(Paused, Some (SuitName Diamonds))"]
    by simp_all
  from replay_pause_selecting
  have s: "map_of (rooms (fst ?s)) ''r'' = Some (snd (hd (rooms (fst ?s))))"
    "gameState (snd (hd (rooms (fst ?s)))) = Paused" "interruptedPhase (snd ?s) ''r'' = TrumpSelection"
    using single_room [of "\<lambda>r. (gameState r, trump r)" "rooms (fst ?s)" "''r''" "(Paused, None)"]
    by simp_all
  from replay_null_trump
  have n: "map_of (rooms (fst ?n)) ''r'' = Some (snd (hd (rooms (fst ?n))))"
    "gameState (snd (hd (rooms (fst ?n)))) = Playing" "selectedTrump (snd ?n) ''r'' = None"
    using single_room [of "\<lambda>r. (gameState r, trump r)" "rooms (fst ?n)" "''r''" "(Playing, None)"]
    by simp_all
  from trump_by_phase [OF replay_initial p(1)] p(2,3,4)
  have tp: "trump (snd (hd (rooms (fst ?p)))) = Some (SuitName Diamonds)" by simp
  from trump_by_phase [OF replay_initial s(1)] s(2,3)
  have ts: "trump (snd (hd (rooms (fst ?s)))) = None" by simp
  from trump_by_phase [OF replay_initial n(1)] n(2,3)
  have tn: "trump (snd (hd (rooms (fst ?n)))) = None" by simp
  from replay_initial [of ex_pause_playing] replay_initial [of ex_pause_selecting]
    replay_initial [of ex_null_trump] p s n tp ts tn
  show ?thesis by blast
qed

lemma history_match_end: "reachableWithHistory ex_match_end (snd (replay ex_match initial))"
  using replay_initial [of ex_match] by (simp only: replay_match_end)

text \<open>Claim C6 as stated fails in two ways. At the end of the example match the room is
  \<open>Completed\<close> and its trump is still Diamonds. And when the trump selector has sent
  \<open>selectTrump\<close> with the trump \<open>null\<close>, the room is \<open>Playing\<close> and its trump is null.\<close>

theorem trump_in_completed_counterexample:
  "reachableWithHistory ex_match_end (snd (replay ex_match initial)) \<and>
   map_of (rooms ex_match_end) ''r'' = Some ex_match_end_room \<and>
   gameState ex_match_end_room = Completed \<and>
   trump ex_match_end_room = Some (SuitName Diamonds) \<and>
   (trump ex_match_end_room \<noteq> None) \<noteq>
     (gameState ex_match_end_room = Playing \<or>
      (gameState ex_match_end_room = Paused \<and>
       interruptedPhase (snd (replay ex_match initial)) ''r'' = Playing)) \<and>
   reachableWithHistory (fst (replay ex_null_trump initial)) (snd (replay ex_null_trump initial)) \<and>
   map_of (rooms (fst (replay ex_null_trump initial))) ''r'' =
     Some (snd (hd (rooms (fst (replay ex_null_trump initial))))) \<and>
   gameState (snd (hd (rooms (fst (replay ex_null_trump initial))))) = Playing \<and>
   trump (snd (hd (rooms (fst (replay ex_null_trump initial))))) = None \<and>
   (trump (snd (hd (rooms (fst (replay ex_null_trump initial))))) \<noteq> None) \<noteq>
     (gameState (snd (hd (rooms (fst (replay ex_null_trump initial))))) = Playing \<or>
      (gameState (snd (hd (rooms (fst (replay ex_null_trump initial))))) = Paused \<and>
       interruptedPhase (snd (replay ex_null_trump initial)) ''r'' = Playing))"
proof -
  let ?n = "replay ex_null_trump initial"
  have done_match: "map_of (rooms ex_match_end) ''r'' = Some ex_match_end_room"
    "gameState ex_match_end_room = Completed"
    "trump ex_match_end_room = Some (SuitName Diamonds)"
    by (simp_all add: ex_match_end_def ex_match_end_room_def)
  from replay_null_trump
  have n: "map_of (rooms (fst ?n)) ''r'' = Some (snd (hd (rooms (fst ?n))))"
    "gameState (snd (hd (rooms (fst ?n)))) = Playing" "trump (snd (hd (rooms (fst ?n)))) = None"
    using single_room [of "\<lambda>r. (gameState r, trump r)" "rooms (fst ?n)" "''r''" "(Playing, None)"]
    by simp_all
  from history_match_end replay_initial [of ex_null_trump] done_match n show ?thesis by simp
qed

subsection \<open>The next trump selector\<close>

lemma next_selector_after_winner:
  assumes res: "resolveTrick r1 = Some (r', sent)"
    and w: "getTrickWinner (currentTrick r1) (trumpSuit (trump r1)) = Some w"
    and ph: "gameState r1 = Playing" "gameState r' = TrumpSelection"
  shows "trumpSelector r' = js_rem (playerIndex w + 1) 4 \<and> currentPlayerIndex r' = trumpSelector r'"
  using assms
  by (auto simp: resolveTrick_def checkRoundComplete_def Let_def split: option.splits if_splits)

text \<open>Claim C4, evaluated on the code. The claim says that after a deal that does not end the
  match the new trump selector is the previous trump selector's seat plus 1 modulo 4. At the
  end of the first deal of the example match the trump selector is seat 0 and seat 1 wins the
  last trick. The \<open>playCard\<close> handler makes the winner the current player before it calls
  \<open>checkRoundComplete\<close>, which advances \<open>currentPlayerIndex\<close>: the new trump selector and
  current player is seat 2, not seat 1.\<close>

theorem next_selector_at_deal_end:
  "reachable ex_deal_end \<and> map_of (rooms ex_deal_end) ''r'' = Some ex_deal_end_room \<and>
   gameState ex_deal_end_room = Playing \<and> trumpSelector ex_deal_end_room = 0 \<and>
   map_option (\<lambda>(r, sent). (gameState r, scores r, lastTrickWinner r, trumpSelector r, currentPlayerIndex r))
     (playCardInRoom ex_deal_end_room ''s0'' 7 42) =
     Some (TrumpSelection, \<lparr>teamA = 0, teamB = 2\<rparr>, 1, 2, 2) \<and>
   js_rem (trumpSelector ex_deal_end_room + 1) 4 = 1"
proof -
  have "map_option (\<lambda>(r, sent). (gameState r, scores r, lastTrickWinner r, trumpSelector r, currentPlayerIndex r))
     (playCardInRoom ex_deal_end_room ''s0'' 7 42) =
     Some (TrumpSelection, \<lparr>teamA = 0, teamB = 2\<rparr>, 1, 2, 2)"
    by code_simp
  moreover have "map_of (rooms ex_deal_end) ''r'' = Some ex_deal_end_room"
    by (simp add: ex_deal_end_def)
  moreover have "gameState ex_deal_end_room = Playing" "trumpSelector ex_deal_end_room = 0"
    "js_rem (trumpSelector ex_deal_end_room + 1) 4 = 1"
    by (simp_all add: ex_deal_end_room_def js_rem_def)
  ultimately show ?thesis using reachable_deal_end by blast
qed

end
